theory Spec2Isabelle
  imports Main "HOL-Library.Word" "HOL-Library.Signed_Division" "HOL-Library.Monad_Syntax"
begin

unbundle bit_operations_syntax

section \<open>Piece codes and masks (chess.h)\<close>

type_synonym u8 = "8 word"

definition PIECE_PAWN :: u8 where "PIECE_PAWN = 0x1"
definition PIECE_KNIGHT :: u8 where "PIECE_KNIGHT = 0x2"
definition PIECE_KING :: u8 where "PIECE_KING = 0x3"
definition PIECE_BISHOP :: u8 where "PIECE_BISHOP = 0x5"
definition PIECE_ROOK :: u8 where "PIECE_ROOK = 0x6"
definition PIECE_QUEEN :: u8 where "PIECE_QUEEN = 0x7"
definition PIECE_WHITE :: u8 where "PIECE_WHITE = 0x0"
definition PIECE_BLACK :: u8 where "PIECE_BLACK = 0x8"

definition MASK_COLOR :: u8 where "MASK_COLOR = 0x8"
definition MASK_TYPE :: u8 where "MASK_TYPE = 0x7"
definition MASK_SLIDE :: u8 where "MASK_SLIDE = 0x4"

text \<open>\<open>MASK_ROW\<close> is only ever applied to square indices, which are C \<open>int\<close>s.\<close>

definition MASK_ROW :: int where "MASK_ROW = 0x70"

section \<open>The board component and the move record (components.h, chess.c)\<close>

datatype move_type = MOVE_TYPE_MOVE | MOVE_TYPE_CAPTURE | MOVE_TYPE_CASTLE

datatype game_state_t =
  STATE_PLAYING | STATE_WHITE_WIN_BY_CHECKMATE | STATE_BLACK_WIN_BY_CHECKMATE
  | STATE_DRAW_BY_STALEMATE

text \<open>
  \<open>board_component_t\<close>. The array \<open>indices[64 * 2]\<close> is a store from cell index to
  byte; the C object has the cells \<open>0..127\<close> only, and every access goes through
  \<open>indices_rd\<close> and \<open>indices_wr\<close> below, which fault outside that range. The same
  holds for \<open>legal_move_indices[64]\<close>. Square indices and \<open>en_passant_pos\<close> are C
  \<open>int\<close>s; they are modelled as unbounded integers, every arithmetic step on them in
  the code happening after the bounds-checked reads that confine them to \<open>0..127\<close>.
\<close>

record board_component_t =
  selected_piece :: "64 word"
  legal_move_indices :: "int \<Rightarrow> bool"
  indices :: "int \<Rightarrow> u8"
  current_player :: u8
  castle_bits :: u8
  num_white_captures :: u8
  num_black_captures :: u8
  en_passant_pos :: int
  move_count :: "32 word"
  game_state :: game_state_t

record move_info_t =
  move_type :: move_type
  capture :: u8
  capture_pos :: int
  rook_pos :: int
  last_castle_bits :: u8
  last_en_passant_pos :: int
  promotion :: u8

section \<open>Undefined behaviour as a fault\<close>

text \<open>
  The code has no error returns. What can go wrong in C is undefined behaviour: an
  access to \<open>indices\<close> outside \<open>0..127\<close>, and a shift whose count or result does not
  fit an \<open>int\<close>. Both are the value \<open>None\<close> of the model.
\<close>

definition indices_rd :: "board_component_t \<Rightarrow> int \<Rightarrow> u8 option" where
  "indices_rd board i = (if 0 \<le> i \<and> i < 128 then Some (indices board i) else None)"

definition indices_wr :: "board_component_t \<Rightarrow> int \<Rightarrow> u8 \<Rightarrow> board_component_t option" where
  "indices_wr board i v =
     (if 0 \<le> i \<and> i < 128 then Some (board\<lparr>indices := (indices board)(i := v)\<rparr>) else None)"

text \<open>\<open>x << n\<close> and \<open>x >> n\<close> on a non-negative \<open>int\<close> \<open>x\<close> (C11 6.5.7).\<close>

definition shl :: "int \<Rightarrow> int \<Rightarrow> int option" where
  "shl x n = (if 0 \<le> n \<and> n < 32 \<and> x * 2 ^ nat n < 2 ^ 31 then Some (x * 2 ^ nat n) else None)"

definition shr :: "int \<Rightarrow> int \<Rightarrow> int option" where
  "shr x n = (if 0 \<le> n \<and> n < 32 then Some (x div 2 ^ nat n) else None)"

text \<open>\<open>player == PIECE_WHITE ? PIECE_BLACK : PIECE_WHITE\<close>\<close>

definition other_player :: "u8 \<Rightarrow> u8" where
  "other_player p = (if p = PIECE_WHITE then PIECE_BLACK else PIECE_WHITE)"

section \<open>The move oracle \<open>is_legal_move\<close> (chess.c, lines 157-233)\<close>

text \<open>
  The path loop of lines 226-229: \<open>n\<close> is the bound \<open>(to - from) / step\<close>, evaluated
  at every test in C and constant throughout.
\<close>

function slide_loop ::
  "board_component_t \<Rightarrow> int \<Rightarrow> int \<Rightarrow> int \<Rightarrow> int \<Rightarrow> bool \<Rightarrow> bool option" where
  "slide_loop board n step i path can_move =
     (if i < n then
        do {
          c \<leftarrow> indices_rd board path;
          slide_loop board n step (i + 1) (path + step) (can_move \<and> c = 0)
        }
      else Some can_move)"
  by pat_completeness auto
termination
  by (relation "measure (\<lambda>(board, n, step, i, path, can_move). nat (n - i))") auto

declare slide_loop.simps [simp del]

text \<open>Lines 216-230: the clearance test for a piece with the slide bit.\<close>

definition slide_check ::
  "board_component_t \<Rightarrow> int \<Rightarrow> int \<Rightarrow> u8 \<Rightarrow> bool \<Rightarrow> bool option" where
  "slide_check board from to piece_to_move can_move =
     (if can_move \<and> piece_to_move AND MASK_SLIDE \<noteq> 0 then
        let dir = to - from;
            step = (if dir smod 17 = 0 then 17
                    else if dir smod 15 = 0 then 15
                    else if dir smod 16 = 0 then 16
                    else 1);
            step = (if dir sdiv step < 0 then - step else step)
        in slide_loop board ((to - from) sdiv step) step 1 (from + step) can_move
      else Some can_move)"

text \<open>Lines 177-190: the pawn case; \<open>&&\<close> keeps the read of the skipped square lazy.\<close>

definition pawn_can_move ::
  "board_component_t \<Rightarrow> int \<Rightarrow> int \<Rightarrow> u8 \<Rightarrow> u8 \<Rightarrow> bool option" where
  "pawn_can_move board from to piece_to_move piece_to_capture =
     (let diff = \<bar>from - to\<bar>;
          dir = (if from - to > 0 then 0 else 8 :: int);
          row = from AND MASK_ROW
      in if uint (piece_to_move AND MASK_COLOR) = dir then
           do {
             let c1 = (diff = 16 \<and> piece_to_capture = 0);
             let c2 = ((diff = 15 \<or> diff = 17) \<and> piece_to_capture \<noteq> 0);
             c3 \<leftarrow> (if diff = 32 \<and> (row = 0x60 \<or> row = 0x10) \<and> piece_to_capture = 0 then
                     do {
                       mid \<leftarrow> indices_rd board (from + (if dir \<noteq> 0 then 16 else - 16));
                       Some (mid = 0)
                     }
                   else Some False);
             let ep = (en_passant_pos board \<noteq> 0 \<and> piece_to_capture = 0);
             let c4 = (ep \<and> diff = (if dir \<noteq> 0 then 15 else 17)
                          \<and> from - 1 = en_passant_pos board);
             let c5 = (ep \<and> diff = (if dir \<noteq> 0 then 17 else 15)
                          \<and> from + 1 = en_passant_pos board);
             Some (c1 \<or> c2 \<or> c3 \<or> c4 \<or> c5)
           }
         else Some False)"

text \<open>
  The oracle takes the board by pointer; the model returns the board with the answer.
  The castling query of line 198 is the only recursive call, made only when the
  displacement is 2 and the castle bit is set (\<open>&&\<close> is lazy).
\<close>

function is_legal_move ::
  "board_component_t \<Rightarrow> int \<Rightarrow> int \<Rightarrow> (bool \<times> board_component_t) option" where
  "is_legal_move board from to =
     (if to AND 0x88 \<noteq> 0 then Some (False, board)
      else
        do {
          piece_to_move \<leftarrow> indices_rd board from;
          if piece_to_move = 0 then Some (False, board)
          else if piece_to_move AND MASK_COLOR \<noteq> current_player board then Some (False, board)
          else
            do {
              piece_to_capture \<leftarrow> indices_rd board to;
              if piece_to_capture \<noteq> 0
                 \<and> piece_to_capture AND MASK_COLOR = current_player board
              then Some (False, board)
              else
                do {
                  let diff = \<bar>from - to\<bar>;
                  let kind = piece_to_move AND MASK_TYPE;
                  (can_move, board) \<leftarrow>
                    (if kind = PIECE_PAWN then
                       do {
                         c \<leftarrow> pawn_can_move board from to piece_to_move piece_to_capture;
                         Some (c, board)
                       }
                     else if kind = PIECE_KNIGHT then
                       Some (diff = 14 \<or> diff = 18 \<or> diff = 31 \<or> diff = 33, board)
                     else if kind = PIECE_KING then
                       do {
                         let dir = (if from - to > 0 then 1 else 0 :: int);
                         (castle, board) \<leftarrow>
                           (if diff = 2 then
                              do {
                                bits \<leftarrow> shr (uint (castle_bits board))
                                         (uint (current_player board) sdiv 4 + dir);
                                if bits AND 1 \<noteq> 0 then
                                  is_legal_move board
                                    (from + (if dir \<noteq> 0 then - 3 else 4))
                                    (from + (if dir \<noteq> 0 then - 1 else 1))
                                else Some (False, board)
                              }
                            else Some (False, board));
                         Some (castle \<or> (diff = 1 \<or> diff = 16 \<or> diff = 17 \<or> diff = 15), board)
                       }
                     else if kind = PIECE_BISHOP then
                       Some (diff smod 15 = 0 \<or> diff smod 17 = 0, board)
                     else if kind = PIECE_ROOK then
                       Some (from AND 0x0f = to AND 0x0f \<or> from AND 0xf0 = to AND 0xf0, board)
                     else if kind = PIECE_QUEEN then
                       Some (diff smod 15 = 0 \<or> diff smod 17 = 0
                             \<or> from AND 0x0f = to AND 0x0f \<or> from AND 0xf0 = to AND 0xf0, board)
                     else Some (False, board));
                  can_move \<leftarrow> slide_check board from to piece_to_move can_move;
                  Some (can_move, board)
                }
            }
        })"
  by pat_completeness auto
termination
  by (relation "measure (\<lambda>(board, from, to).
        if \<bar>from - to\<bar> = 2 then (if from - to > 0 then 2 else 1) else 0)") auto

declare is_legal_move.simps [simp del]


section \<open>Make and undo (chess.c, lines 46-155)\<close>

text \<open>
  \<open>castle_bits &= ~m\<close>: the operands are promoted to \<open>int\<close>, the result is stored
  back into the byte.
\<close>

definition clear_castle_bits :: "board_component_t \<Rightarrow> int \<Rightarrow> board_component_t" where
  "clear_castle_bits board m =
     board\<lparr>castle_bits := word_of_int (uint (castle_bits board) AND NOT m)\<rparr>"

text \<open>Lines 59-71: a king move revokes both rights; a castling move carries the rook.\<close>

definition pm_king ::
  "board_component_t \<Rightarrow> int \<Rightarrow> int \<Rightarrow> move_info_t \<Rightarrow> (move_info_t \<times> board_component_t) option" where
  "pm_king board from to move_info =
     do {
       p \<leftarrow> indices_rd board from;
       if p AND MASK_TYPE = PIECE_KING then
         do {
           m \<leftarrow> shl 3 (uint (current_player board) sdiv 4);
           let board = clear_castle_bits board m;
           if \<bar>from - to\<bar> = 2 then
             do {
               let rook_from = from + (if from > to then - 3 else 4);
               let rook_to = from + (if from > to then - 1 else 1);
               r \<leftarrow> indices_rd board rook_from;
               board \<leftarrow> indices_wr board rook_to r;
               board \<leftarrow> indices_wr board rook_from 0;
               Some (move_info\<lparr>move_type := MOVE_TYPE_CASTLE, rook_pos := rook_from\<rparr>, board)
             }
           else Some (move_info, board)
         }
       else Some (move_info, board)
     }"

text \<open>Lines 73-79: a rook leaving a corner revokes one right of the mover.\<close>

definition pm_rook_from :: "board_component_t \<Rightarrow> int \<Rightarrow> board_component_t option" where
  "pm_rook_from board from =
     do {
       p \<leftarrow> indices_rd board from;
       if p AND MASK_TYPE = PIECE_ROOK then
         if from = 0x0 \<or> from = 0x70 then
           do {
             m \<leftarrow> shl 1 (uint (current_player board) sdiv 4 + 0);
             Some (clear_castle_bits board m)
           }
         else if from = 0x7 \<or> from = 0x77 then
           do {
             m \<leftarrow> shl 1 (uint (current_player board) sdiv 4 + 1);
             Some (clear_castle_bits board m)
           }
         else Some board
       else Some board
     }"

text \<open>Lines 81-88: a rook standing on the destination corner revokes one right of the opponent.\<close>

definition pm_rook_to :: "board_component_t \<Rightarrow> int \<Rightarrow> board_component_t option" where
  "pm_rook_to board to =
     do {
       p \<leftarrow> indices_rd board to;
       if p AND MASK_TYPE = PIECE_ROOK then
         let opponent = other_player (current_player board) in
         if to = 0x0 \<or> to = 0x70 then
           do {
             m \<leftarrow> shl 1 (uint opponent sdiv 4 + 0);
             Some (clear_castle_bits board m)
           }
         else if to = 0x7 \<or> to = 0x77 then
           do {
             m \<leftarrow> shl 1 (uint opponent sdiv 4 + 1);
             Some (clear_castle_bits board m)
           }
         else Some board
       else Some board
     }"

text \<open>Lines 90-110: the en-passant square, and the en-passant capture.\<close>

definition pm_pawn ::
  "board_component_t \<Rightarrow> int \<Rightarrow> int \<Rightarrow> u8 \<Rightarrow> move_info_t
     \<Rightarrow> (move_info_t \<times> board_component_t) option" where
  "pm_pawn board from to capture0 move_info =
     do {
       p \<leftarrow> indices_rd board from;
       if p AND MASK_TYPE = PIECE_PAWN then
         let diff = \<bar>from - to\<bar> in
         if diff = 32 then Some (move_info, board\<lparr>en_passant_pos := to\<rparr>)
         else if (diff = 17 \<or> diff = 15) \<and> capture0 = 0 then
           do {
             let pos = en_passant_pos board;
             c \<leftarrow> indices_rd board pos;
             board \<leftarrow> indices_wr board pos 0;
             Some (move_info\<lparr>move_type := MOVE_TYPE_CAPTURE, capture_pos := pos, capture := c\<rparr>,
                   board\<lparr>en_passant_pos := 0\<rparr>)
           }
         else Some (move_info, board\<lparr>en_passant_pos := 0\<rparr>)
       else Some (move_info, board\<lparr>en_passant_pos := 0\<rparr>)
     }"

text \<open>Lines 112-119: promotion, written to the source cell before the final copy.\<close>

definition pm_promote ::
  "board_component_t \<Rightarrow> int \<Rightarrow> int \<Rightarrow> move_info_t \<Rightarrow> (move_info_t \<times> board_component_t) option" where
  "pm_promote board from to move_info =
     do {
       p \<leftarrow> indices_rd board from;
       if p AND MASK_TYPE = PIECE_PAWN then
         let row = to AND MASK_ROW in
         if row = 0x00 \<or> row = 0x70 then
           do {
             q \<leftarrow> indices_rd board from;
             board \<leftarrow> indices_wr board from (PIECE_QUEEN OR (q AND MASK_COLOR));
             Some (move_info\<lparr>promotion := PIECE_QUEEN\<rparr>, board)
           }
         else Some (move_info, board)
       else Some (move_info, board)
     }"

text \<open>
  \<open>perform_move\<close>. The fields the initialiser of \<open>move_info\<close> leaves out (\<open>rook_pos\<close>)
  are zero in C.
\<close>

definition perform_move ::
  "board_component_t \<Rightarrow> int \<Rightarrow> int \<Rightarrow> (move_info_t \<times> board_component_t) option" where
  "perform_move board from to =
     do {
       capture0 \<leftarrow> indices_rd board to;
       let move_info = \<lparr>move_type = (if capture0 \<noteq> 0 then MOVE_TYPE_CAPTURE else MOVE_TYPE_MOVE),
                        capture = capture0, capture_pos = to, rook_pos = 0,
                        last_castle_bits = castle_bits board,
                        last_en_passant_pos = en_passant_pos board,
                        promotion = 0\<rparr>;
       (move_info, board) \<leftarrow> pm_king board from to move_info;
       board \<leftarrow> pm_rook_from board from;
       board \<leftarrow> pm_rook_to board to;
       (move_info, board) \<leftarrow> pm_pawn board from to capture0 move_info;
       (move_info, board) \<leftarrow> pm_promote board from to move_info;
       p \<leftarrow> indices_rd board from;
       board \<leftarrow> indices_wr board to p;
       board \<leftarrow> indices_wr board from 0;
       let board = board\<lparr>current_player := other_player (current_player board)\<rparr>;
       let board = board\<lparr>move_count := move_count board + 1\<rparr>;
       Some (move_info, board)
     }"

definition revert_move ::
  "board_component_t \<Rightarrow> int \<Rightarrow> int \<Rightarrow> move_info_t \<Rightarrow> board_component_t option" where
  "revert_move board from to info =
     do {
       p \<leftarrow> indices_rd board to;
       board \<leftarrow> indices_wr board from p;
       board \<leftarrow> indices_wr board to 0;
       board \<leftarrow> indices_wr board (capture_pos info) (capture info);
       let board = board\<lparr>castle_bits := last_castle_bits info\<rparr>;
       let board = board\<lparr>en_passant_pos := last_en_passant_pos info\<rparr>;
       board \<leftarrow>
         (if move_type info = MOVE_TYPE_CASTLE then
            do {
              let rook_from = from + (if from > to then - 3 else 4);
              let rook_to = from + (if from > to then - 1 else 1);
              r \<leftarrow> indices_rd board rook_to;
              board \<leftarrow> indices_wr board rook_from r;
              indices_wr board rook_to 0
            }
          else Some board);
       board \<leftarrow>
         (if promotion info \<noteq> 0 then
            do {
              q \<leftarrow> indices_rd board from;
              indices_wr board from (PIECE_PAWN OR (q AND MASK_COLOR))
            }
          else Some board);
       let board = board\<lparr>current_player := other_player (current_player board)\<rparr>;
       let board = board\<lparr>move_count := move_count board - 1\<rparr>;
       Some board
     }"

section \<open>King safety and the end of the game (chess.c, lines 235-295)\<close>

text \<open>Lines 238-244: the first cell holding \<open>piece\<close>, or 0 when there is none.\<close>

function find_piece :: "board_component_t \<Rightarrow> u8 \<Rightarrow> int \<Rightarrow> int" where
  "find_piece board piece i =
     (if i < 128 then
        (if indices board i = piece then i else find_piece board piece (i + 1))
      else 0)"
  by pat_completeness auto
termination
  by (relation "measure (\<lambda>(board, piece, i). nat (128 - i))") auto

declare find_piece.simps [simp del]

text \<open>Lines 247-253: the scan for an attacker of \<open>pos\<close>, left at the first hit.\<close>

function attack_loop ::
  "board_component_t \<Rightarrow> int \<Rightarrow> int \<Rightarrow> (bool \<times> board_component_t) option" where
  "attack_loop board pos i =
     (if i < 128 then
        do {
          (hit, board) \<leftarrow> is_legal_move board i pos;
          if hit then Some (True, board) else attack_loop board pos (i + 1)
        }
      else Some (False, board))"
  by pat_completeness auto
termination
  by (relation "measure (\<lambda>(board, pos, i). nat (128 - i))") auto

declare attack_loop.simps [simp del]

definition is_piece_attacked ::
  "board_component_t \<Rightarrow> u8 \<Rightarrow> (bool \<times> board_component_t) option" where
  "is_piece_attacked board piece = attack_loop board (find_piece board piece 0) 0"

definition is_checked_after_move ::
  "board_component_t \<Rightarrow> int \<Rightarrow> int \<Rightarrow> (bool \<times> board_component_t) option" where
  "is_checked_after_move board from to =
     do {
       (info, board) \<leftarrow> perform_move board from to;
       let king_piece = PIECE_KING OR other_player (current_player board);
       (checked, board) \<leftarrow> is_piece_attacked board king_piece;
       board \<leftarrow> revert_move board from to info;
       Some (checked, board)
     }"

text \<open>
  The test \<open>is_legal_move(board, from, to) && !is_checked_after_move(board, from, to)\<close>
  of lines 280, 302 and 483; the move is made and undone only when the oracle accepts it.
\<close>

definition legal_and_safe ::
  "board_component_t \<Rightarrow> int \<Rightarrow> int \<Rightarrow> (bool \<times> board_component_t) option" where
  "legal_and_safe board from to =
     do {
       (legal, board) \<leftarrow> is_legal_move board from to;
       if legal then
         do {
           (checked, board) \<leftarrow> is_checked_after_move board from to;
           Some (\<not> checked, board)
         }
       else Some (False, board)
     }"

text \<open>Lines 278-280: the two counting loops.\<close>

function count_to ::
  "board_component_t \<Rightarrow> int \<Rightarrow> int \<Rightarrow> int \<Rightarrow> (int \<times> board_component_t) option" where
  "count_to board from to num_legal_moves =
     (if to < 128 then
        do {
          (ok, board) \<leftarrow> legal_and_safe board from to;
          count_to board from (to + 1) (num_legal_moves + (if ok then 1 else 0))
        }
      else Some (num_legal_moves, board))"
  by pat_completeness auto
termination
  by (relation "measure (\<lambda>(board, from, to, n). nat (128 - to))") auto

declare count_to.simps [simp del]

function count_from ::
  "board_component_t \<Rightarrow> int \<Rightarrow> int \<Rightarrow> (int \<times> board_component_t) option" where
  "count_from board from num_legal_moves =
     (if from < 128 then
        do {
          (num_legal_moves, board) \<leftarrow> count_to board from 0 num_legal_moves;
          count_from board (from + 1) num_legal_moves
        }
      else Some (num_legal_moves, board))"
  by pat_completeness auto
termination
  by (relation "measure (\<lambda>(board, from, n). nat (128 - from))") auto

declare count_from.simps [simp del]

definition check_end_condition_reached :: "board_component_t \<Rightarrow> board_component_t option" where
  "check_end_condition_reached board =
     do {
       let player = current_player board;
       let board = board\<lparr>current_player := other_player player\<rparr>;
       (checked, board) \<leftarrow> is_piece_attacked board (PIECE_KING OR player);
       let board = board\<lparr>current_player := player\<rparr>;
       (num_legal_moves, board) \<leftarrow> count_from board 0 0;
       Some (board\<lparr>game_state :=
         (if num_legal_moves = 0 then
            (if checked then
               (if player = PIECE_WHITE then STATE_BLACK_WIN_BY_CHECKMATE
                else STATE_WHITE_WIN_BY_CHECKMATE)
             else STATE_DRAW_BY_STALEMATE)
          else STATE_PLAYING)\<rparr>)
     }"

section \<open>The target-square handler (chess.c, lines 470-529)\<close>


section \<open>The initial position (components.c, lines 150-166)\<close>

definition default_indices :: "u8 list" where
  "default_indices =
     [0xe, 0xa, 0xd, 0xb, 0xf, 0xd, 0xa, 0xe, 0x0, 0x0, 0x0, 0x0, 0x0, 0x0, 0x0, 0x0,
      0x9, 0x9, 0x9, 0x9, 0x9, 0x9, 0x9, 0x9, 0x0, 0x0, 0x0, 0x0, 0x0, 0x0, 0x0, 0x0,
      0x0, 0x0, 0x0, 0x0, 0x0, 0x0, 0x0, 0x0, 0x0, 0x0, 0x0, 0x0, 0x0, 0x0, 0x0, 0x0,
      0x0, 0x0, 0x0, 0x0, 0x0, 0x0, 0x0, 0x0, 0x0, 0x0, 0x0, 0x0, 0x0, 0x0, 0x0, 0x0,
      0x0, 0x0, 0x0, 0x0, 0x0, 0x0, 0x0, 0x0, 0x0, 0x0, 0x0, 0x0, 0x0, 0x0, 0x0, 0x0,
      0x0, 0x0, 0x0, 0x0, 0x0, 0x0, 0x0, 0x0, 0x0, 0x0, 0x0, 0x0, 0x0, 0x0, 0x0, 0x0,
      0x1, 0x1, 0x1, 0x1, 0x1, 0x1, 0x1, 0x1, 0x0, 0x0, 0x0, 0x0, 0x0, 0x0, 0x0, 0x0,
      0x6, 0x2, 0x5, 0x3, 0x7, 0x5, 0x2, 0x6, 0x0, 0x0, 0x0, 0x0, 0x0, 0x0, 0x0, 0x0]"

text \<open>The board component's \<open>default_data\<close>; the fields it leaves out are zero.\<close>

definition default_board :: board_component_t where
  "default_board =
     \<lparr>selected_piece = - 1,
      legal_move_indices = (\<lambda>i. False),
      indices = (\<lambda>i. if 0 \<le> i \<and> i < 128 then default_indices ! nat i else 0),
      current_player = 0x0,
      castle_bits = 0xf,
      num_white_captures = 0,
      num_black_captures = 0,
      en_passant_pos = 0,
      move_count = 0,
      game_state = STATE_PLAYING\<rparr>"

section \<open>Games, invariants and example positions\<close>

text \<open>A sequence of makes without undo, as a game applies them.\<close>

fun perform_moves :: "board_component_t \<Rightarrow> (int \<times> int) list \<Rightarrow> board_component_t option" where
  "perform_moves board [] = Some board"
| "perform_moves board ((from, to) # moves) =
     do {
       (info, board) \<leftarrow> perform_move board from to;
       perform_moves board moves
     }"

text \<open>
  The invariants of the board as the specification lists them (section 3.3): the side to
  move is a colour bit; there is one king of each colour while the game is on; the
  en-passant square is 0 or holds a pawn of the side that just moved; the sentinel cells
  are empty.
\<close>

definition count_piece :: "board_component_t \<Rightarrow> u8 \<Rightarrow> nat" where
  "count_piece board piece = length (filter (\<lambda>i. indices board i = piece) [0..127])"

definition spec_invariants :: "board_component_t \<Rightarrow> bool" where
  "spec_invariants board \<longleftrightarrow>
     (current_player board = PIECE_WHITE \<or> current_player board = PIECE_BLACK)
     \<and> (count_piece board (PIECE_KING OR PIECE_WHITE) = 1
          \<and> count_piece board (PIECE_KING OR PIECE_BLACK) = 1
        \<or> game_state board \<noteq> STATE_PLAYING)
     \<and> (en_passant_pos board = 0
        \<or> 0 \<le> en_passant_pos board \<and> en_passant_pos board < 128
          \<and> indices board (en_passant_pos board)
              = PIECE_PAWN OR other_player (current_player board))
     \<and> filter (\<lambda>i. i AND 0x88 \<noteq> 0 \<and> indices board i \<noteq> 0) [0..127] = []"

text \<open>An empty board with White to move, to set pieces on.\<close>

definition empty_board :: board_component_t where
  "empty_board =
     \<lparr>selected_piece = - 1,
      legal_move_indices = (\<lambda>i. False),
      indices = (\<lambda>i. 0),
      current_player = PIECE_WHITE,
      castle_bits = 0xf,
      num_white_captures = 0,
      num_black_captures = 0,
      en_passant_pos = 0,
      move_count = 0,
      game_state = STATE_PLAYING\<rparr>"

text \<open>
  White king on its home square \<open>0x73\<close>, White rook in the corner \<open>0x77\<close>, a Black
  knight on \<open>0x74\<close> beside the king, Black king at home on \<open>0x03\<close>; all castle rights.
\<close>

definition castle_capture_board :: board_component_t where
  "castle_capture_board =
     empty_board\<lparr>indices := (\<lambda>i. 0)
       (0x73 := PIECE_KING OR PIECE_WHITE, 0x77 := PIECE_ROOK OR PIECE_WHITE,
        0x74 := PIECE_KNIGHT OR PIECE_BLACK, 0x03 := PIECE_KING OR PIECE_BLACK)\<rparr>"

text \<open>The two kings and both White rooks at home, nothing between them; all castle rights.\<close>

definition rooks_home_board :: board_component_t where
  "rooks_home_board =
     empty_board\<lparr>indices := (\<lambda>i. 0)
       (0x73 := PIECE_KING OR PIECE_WHITE, 0x70 := PIECE_ROOK OR PIECE_WHITE,
        0x77 := PIECE_ROOK OR PIECE_WHITE, 0x03 := PIECE_KING OR PIECE_BLACK)\<rparr>"

text \<open>A White pawn one step from the last rank, with the two kings.\<close>

definition promotion_board :: board_component_t where
  "promotion_board =
     empty_board\<lparr>indices := (\<lambda>i. 0)
       (0x73 := PIECE_KING OR PIECE_WHITE, 0x16 := PIECE_PAWN OR PIECE_WHITE,
        0x03 := PIECE_KING OR PIECE_BLACK)\<rparr>"

text \<open>
  A position with White to move: White king \<open>0x73\<close> and rooks \<open>0x70\<close>, \<open>0x77\<close> at
  home, Black queen on \<open>0x74\<close> beside the king, Black bishop on \<open>0x37\<close>, Black king on
  \<open>0x65\<close>, Black pawn on \<open>0x51\<close>. Only bit 0 of the castle rights is left: Black's
  king has moved, and the rook of \<open>0x77\<close> has been away and back.
\<close>

definition mate_board :: board_component_t where
  "mate_board =
     empty_board\<lparr>castle_bits := 0x1, indices := (\<lambda>i. 0)
       (0x73 := PIECE_KING OR PIECE_WHITE, 0x70 := PIECE_ROOK OR PIECE_WHITE,
        0x77 := PIECE_ROOK OR PIECE_WHITE, 0x74 := PIECE_QUEEN OR PIECE_BLACK,
        0x37 := PIECE_BISHOP OR PIECE_BLACK, 0x65 := PIECE_KING OR PIECE_BLACK,
        0x51 := PIECE_PAWN OR PIECE_BLACK)\<rparr>"

text \<open>The same position without the Black queen.\<close>

definition mate_board_after :: board_component_t where
  "mate_board_after = mate_board\<lparr>indices := (indices mate_board)(0x74 := 0)\<rparr>"

section \<open>What \<open>perform_move\<close> leaves behind, in closed form\<close>

definition rook_from_sq :: "int \<Rightarrow> int \<Rightarrow> int" where
  "rook_from_sq from to = from + (if from > to then - 3 else 4)"

definition rook_to_sq :: "int \<Rightarrow> int \<Rightarrow> int" where
  "rook_to_sq from to = from + (if from > to then - 1 else 1)"

definition castles :: "u8 \<Rightarrow> int \<Rightarrow> int \<Rightarrow> bool" where
  "castles p from to \<longleftrightarrow> p AND MASK_TYPE = PIECE_KING \<and> \<bar>from - to\<bar> = 2"

definition king_grid :: "(int \<Rightarrow> u8) \<Rightarrow> int \<Rightarrow> int \<Rightarrow> int \<Rightarrow> u8" where
  "king_grid g from to =
     (if castles (g from) from to
      then g(rook_to_sq from to := g (rook_from_sq from to), rook_from_sq from to := 0)
      else g)"

definition ep_capture :: "u8 \<Rightarrow> int \<Rightarrow> int \<Rightarrow> u8 \<Rightarrow> bool" where
  "ep_capture p from to capture0 \<longleftrightarrow>
     p AND MASK_TYPE = PIECE_PAWN \<and> (\<bar>from - to\<bar> = 17 \<or> \<bar>from - to\<bar> = 15) \<and> capture0 = 0"

definition promotes :: "u8 \<Rightarrow> int \<Rightarrow> bool" where
  "promotes p to \<longleftrightarrow>
     p AND MASK_TYPE = PIECE_PAWN \<and> (to AND MASK_ROW = 0x00 \<or> to AND MASK_ROW = 0x70)"

text \<open>The grid after \<open>perform_move\<close>, stage by stage.\<close>

definition pawn_grid :: "(int \<Rightarrow> u8) \<Rightarrow> int \<Rightarrow> int \<Rightarrow> int \<Rightarrow> u8 \<Rightarrow> int \<Rightarrow> u8" where
  "pawn_grid g ep from to capture0 =
     (if ep_capture (g from) from to capture0 then g(ep := 0) else g)"

definition promote_grid :: "(int \<Rightarrow> u8) \<Rightarrow> int \<Rightarrow> int \<Rightarrow> int \<Rightarrow> u8" where
  "promote_grid g from to =
     (if promotes (g from) to then g(from := PIECE_QUEEN OR (g from AND MASK_COLOR)) else g)"

definition moved_grid :: "board_component_t \<Rightarrow> int \<Rightarrow> int \<Rightarrow> int \<Rightarrow> u8" where
  "moved_grid board from to =
     (let g5 = promote_grid
                 (pawn_grid (king_grid (indices board) from to) (en_passant_pos board)
                    from to (indices board to)) from to
      in g5(to := g5 from, from := 0))"

definition moved_info :: "board_component_t \<Rightarrow> int \<Rightarrow> int \<Rightarrow> move_info_t" where
  "moved_info board from to =
     (let g = indices board;
          castle = castles (g from) from to;
          ep = ep_capture (g from) from to (g to);
          g1 = king_grid g from to;
          g4 = pawn_grid g1 (en_passant_pos board) from to (g to)
      in \<lparr>move_type = (if ep then MOVE_TYPE_CAPTURE else if castle then MOVE_TYPE_CASTLE
                        else if g to \<noteq> 0 then MOVE_TYPE_CAPTURE else MOVE_TYPE_MOVE),
          capture = (if ep then g1 (en_passant_pos board) else g to),
          capture_pos = (if ep then en_passant_pos board else to),
          rook_pos = (if castle then rook_from_sq from to else 0),
          last_castle_bits = castle_bits board,
          last_en_passant_pos = en_passant_pos board,
          promotion = (if promotes (g4 from) to then PIECE_QUEEN else 0)\<rparr>)"

text \<open>The grid after \<open>revert_move\<close>, from line 132 to line 151.\<close>

definition reverted_grid :: "(int \<Rightarrow> u8) \<Rightarrow> int \<Rightarrow> int \<Rightarrow> move_info_t \<Rightarrow> int \<Rightarrow> u8" where
  "reverted_grid g from to info =
     (let g1 = g(from := g to, to := 0, capture_pos info := capture info);
          g2 = (if move_type info = MOVE_TYPE_CASTLE
                then g1(rook_from_sq from to := g1 (rook_to_sq from to), rook_to_sq from to := 0)
                else g1)
      in if promotion info \<noteq> 0 then g2(from := PIECE_PAWN OR (g2 from AND MASK_COLOR)) else g2)"

text \<open>
  The shape of move that \<open>revert_move\<close> undoes: not a castling move whose rook lands on
  an occupied cell, and not a pawn whose code has bits outside the colour and kind masks.
\<close>

definition undo_safe :: "board_component_t \<Rightarrow> int \<Rightarrow> int \<Rightarrow> bool" where
  "undo_safe board from to \<longleftrightarrow>
     (indices board (rook_to_sq from to) = 0 \<or> \<not> castles (indices board from) from to)
     \<and> (PIECE_PAWN OR (indices board from AND MASK_COLOR) = indices board from
        \<or> indices board from AND MASK_TYPE \<noteq> PIECE_PAWN)"

section \<open>Lemmas\<close>

lemmas piece_defs =
  PIECE_PAWN_def PIECE_KNIGHT_def PIECE_KING_def PIECE_BISHOP_def PIECE_ROOK_def
  PIECE_QUEEN_def PIECE_WHITE_def PIECE_BLACK_def MASK_COLOR_def MASK_TYPE_def
  MASK_SLIDE_def MASK_ROW_def


lemma clear_word_subset [simp]:
  "(word_of_int (uint (c :: u8) AND NOT y) :: u8) AND c = word_of_int (uint c AND NOT y)"
  by (rule bit_word_eqI) (auto simp: bit_simps)

lemma clear_castle_bits_subset:
  "castle_bits (clear_castle_bits board m) AND castle_bits board = castle_bits (clear_castle_bits board m)"
  by (simp add: clear_castle_bits_def)

lemma clear_castle_bits_eq:
  "clear_castle_bits board m = board\<lparr>castle_bits := castle_bits (clear_castle_bits board m)\<rparr>"
  by (simp add: clear_castle_bits_def)

lemma castle_subset_trans:
  fixes a b c :: u8
  assumes "a AND b = a" and "b AND c = b"
  shows "a AND c = a"
proof -
  have "a AND c = (a AND b) AND c" using assms(1) by simp
  also have "\<dots> = a AND (b AND c)" by (simp add: and.assoc)
  also have "\<dots> = a" using assms by simp
  finally show ?thesis .
qed

lemma pm_king_Some:
  assumes "pm_king board from to mi = Some (mi', board')"
  shows "board' = board\<lparr>indices := king_grid (indices board) from to,
                         castle_bits := castle_bits board'\<rparr>
    \<and> castle_bits board' AND castle_bits board = castle_bits board'
    \<and> mi' = (if castles (indices board from) from to
             then mi\<lparr>move_type := MOVE_TYPE_CASTLE, rook_pos := rook_from_sq from to\<rparr> else mi)
    \<and> 0 \<le> from \<and> from < 128"
proof -
  consider (other) "indices board from AND MASK_TYPE \<noteq> PIECE_KING"
    | (castle) "indices board from AND MASK_TYPE = PIECE_KING" "\<bar>from - to\<bar> = 2"
    | (king) "indices board from AND MASK_TYPE = PIECE_KING" "\<bar>from - to\<bar> \<noteq> 2"
    by blast
  then show ?thesis
  proof cases
    case other
    with assms show ?thesis
      by (auto simp: pm_king_def king_grid_def castles_def bind_eq_Some_conv indices_rd_def split: if_splits)
  next
    case castle
    with assms show ?thesis
      by (auto simp del: abs_eq_iff simp: pm_king_def king_grid_def castles_def bind_eq_Some_conv indices_rd_def indices_wr_def Let_def
          rook_from_sq_def rook_to_sq_def clear_castle_bits_subset clear_castle_bits_def split: if_splits)
  next
    case king
    with assms show ?thesis
      by (auto simp: pm_king_def king_grid_def castles_def bind_eq_Some_conv indices_rd_def clear_castle_bits_subset
          clear_castle_bits_def split: if_splits)
  qed
qed

lemma pm_rook_from_Some:
  assumes "pm_rook_from board from = Some board'"
  shows "board' = board\<lparr>castle_bits := castle_bits board'\<rparr>
    \<and> castle_bits board' AND castle_bits board = castle_bits board'"
  using assms
  by (auto simp: pm_rook_from_def bind_eq_Some_conv clear_castle_bits_subset
      clear_castle_bits_def split: if_splits)

lemma pm_rook_to_Some:
  assumes "pm_rook_to board to = Some board'"
  shows "board' = board\<lparr>castle_bits := castle_bits board'\<rparr>
    \<and> castle_bits board' AND castle_bits board = castle_bits board'"
  using assms
  by (auto simp: pm_rook_to_def bind_eq_Some_conv clear_castle_bits_subset Let_def
      clear_castle_bits_def split: if_splits)

lemma pm_pawn_Some:
  assumes "pm_pawn board from to capture0 mi = Some (mi', board')"
  shows "board' = board\<lparr>indices := (if ep_capture (indices board from) from to capture0
                                      then (indices board)(en_passant_pos board := 0)
                                      else indices board),
                         en_passant_pos := (if indices board from AND MASK_TYPE = PIECE_PAWN
                                               \<and> \<bar>from - to\<bar> = 32 then to else 0)\<rparr>
    \<and> mi' = (if ep_capture (indices board from) from to capture0
             then mi\<lparr>move_type := MOVE_TYPE_CAPTURE, capture_pos := en_passant_pos board,
                     capture := indices board (en_passant_pos board)\<rparr> else mi)"
proof -
  consider (other) "indices board from AND MASK_TYPE \<noteq> PIECE_PAWN"
    | (double) "indices board from AND MASK_TYPE = PIECE_PAWN" "\<bar>from - to\<bar> = 32"
    | (ep) "indices board from AND MASK_TYPE = PIECE_PAWN" "\<bar>from - to\<bar> \<noteq> 32"
        "ep_capture (indices board from) from to capture0"
    | (pawn) "indices board from AND MASK_TYPE = PIECE_PAWN" "\<bar>from - to\<bar> \<noteq> 32"
        "\<not> ep_capture (indices board from) from to capture0"
    by blast
  then show ?thesis
  proof cases
    case other
    with assms show ?thesis
      by (auto simp: pm_pawn_def ep_capture_def bind_eq_Some_conv indices_rd_def split: if_splits)
  next
    case double
    with assms show ?thesis
      by (auto simp del: abs_eq_iff simp: pm_pawn_def ep_capture_def bind_eq_Some_conv indices_rd_def Let_def split: if_splits)
  next
    case ep
    with assms show ?thesis
      by (auto simp del: abs_eq_iff simp: pm_pawn_def ep_capture_def bind_eq_Some_conv indices_rd_def indices_wr_def Let_def split: if_splits)
  next
    case pawn
    with assms show ?thesis
      by (auto simp del: abs_eq_iff simp: pm_pawn_def ep_capture_def bind_eq_Some_conv indices_rd_def indices_wr_def Let_def split: if_splits)
  qed
qed

lemma pm_promote_Some:
  assumes "pm_promote board from to mi = Some (mi', board')"
  shows "board' = board\<lparr>indices := (if promotes (indices board from) to
                                      then (indices board)(from := PIECE_QUEEN OR (indices board from AND MASK_COLOR))
                                      else indices board)\<rparr>
    \<and> mi' = (if promotes (indices board from) to then mi\<lparr>promotion := PIECE_QUEEN\<rparr> else mi)"
  using assms
  by (auto simp: pm_promote_def promotes_def bind_eq_Some_conv indices_rd_def indices_wr_def Let_def
      split: if_splits)

lemma perform_move_stages:
  assumes "perform_move board from to = Some (info, board')"
  obtains mi1 b1 b2 b3 mi4 b4 b5 where
    "0 \<le> to" "to < 128" "0 \<le> from" "from < 128"
    "pm_king board from to
       \<lparr>move_type = (if indices board to \<noteq> 0 then MOVE_TYPE_CAPTURE else MOVE_TYPE_MOVE),
        capture = indices board to, capture_pos = to, rook_pos = 0,
        last_castle_bits = castle_bits board,
        last_en_passant_pos = en_passant_pos board,
        promotion = 0\<rparr> = Some (mi1, b1)"
    "pm_rook_from b1 from = Some b2"
    "pm_rook_to b2 to = Some b3"
    "pm_pawn b3 from to (indices board to) mi1 = Some (mi4, b4)"
    "pm_promote b4 from to mi4 = Some (info, b5)"
    "board' = b5\<lparr>indices := (indices b5)(to := indices b5 from, from := 0),
                  current_player := other_player (current_player b5),
                  move_count := move_count b5 + 1\<rparr>"
  using assms
  by (simp add: perform_move_def bind_eq_Some_conv Let_def indices_rd_def indices_wr_def split: if_splits)

lemma king_grid_from [simp]: "king_grid g from to from = g from"
  by (simp add: king_grid_def rook_from_sq_def rook_to_sq_def)

lemma king_grid_to [simp]: "king_grid g from to to = g to"
  by (auto simp: king_grid_def castles_def rook_from_sq_def rook_to_sq_def)

lemma perform_move_Some:
  assumes "perform_move board from to = Some (info, board')"
  shows "board' = board\<lparr>indices := moved_grid board from to,
            castle_bits := castle_bits board',
            en_passant_pos := (if indices board from AND MASK_TYPE = PIECE_PAWN
                                  \<and> \<bar>from - to\<bar> = 32 then to else 0),
            current_player := other_player (current_player board),
            move_count := move_count board + 1\<rparr>"
    and "castle_bits board' AND castle_bits board = castle_bits board'"
    and "0 \<le> from" "from < 128" "0 \<le> to" "to < 128"
    and "info = moved_info board from to"
proof -
  from assms obtain mi1 b1 b2 b3 mi4 b4 b5 where
    r: "0 \<le> to" "to < 128" "0 \<le> from" "from < 128"
    and k: "pm_king board from to
       \<lparr>move_type = (if indices board to \<noteq> 0 then MOVE_TYPE_CAPTURE else MOVE_TYPE_MOVE),
        capture = indices board to, capture_pos = to, rook_pos = 0,
        last_castle_bits = castle_bits board,
        last_en_passant_pos = en_passant_pos board,
        promotion = 0\<rparr> = Some (mi1, b1)"
    and rf: "pm_rook_from b1 from = Some b2"
    and rt: "pm_rook_to b2 to = Some b3"
    and pw: "pm_pawn b3 from to (indices board to) mi1 = Some (mi4, b4)"
    and pr: "pm_promote b4 from to mi4 = Some (info, b5)"
    and fin: "board' = b5\<lparr>indices := (indices b5)(to := indices b5 from, from := 0),
                  current_player := other_player (current_player b5),
                  move_count := move_count b5 + 1\<rparr>"
    by (rule perform_move_stages)
  note K = pm_king_Some [OF k] and RF = pm_rook_from_Some [OF rf] and RT = pm_rook_to_Some [OF rt]
    and PW = pm_pawn_Some [OF pw] and PR = pm_promote_Some [OF pr]
  define c1 c2 c3 where "c1 = castle_bits b1" and "c2 = castle_bits b2" and "c3 = castle_bits b3"
  have b1: "b1 = board\<lparr>indices := king_grid (indices board) from to, castle_bits := c1\<rparr>"
    using K by (simp add: c1_def)
  have "b2 = b1\<lparr>castle_bits := c2\<rparr>" using RF by (simp add: c2_def)
  then have b2: "b2 = board\<lparr>indices := king_grid (indices board) from to, castle_bits := c2\<rparr>"
    by (simp add: b1)
  have "b3 = b2\<lparr>castle_bits := c3\<rparr>" using RT by (simp add: c3_def)
  then have b3: "b3 = board\<lparr>indices := king_grid (indices board) from to, castle_bits := c3\<rparr>"
    by (simp add: b2)
  have b4: "b4 = board\<lparr>indices := pawn_grid (king_grid (indices board) from to)
                  (en_passant_pos board) from to (indices board to),
               castle_bits := c3,
               en_passant_pos := (if indices board from AND MASK_TYPE = PIECE_PAWN
                                  \<and> \<bar>from - to\<bar> = 32 then to else 0)\<rparr>"
    using PW by (simp add: b3 pawn_grid_def)
  have b5: "b5 = board\<lparr>indices := promote_grid (pawn_grid (king_grid (indices board) from to)
                  (en_passant_pos board) from to (indices board to)) from to,
               castle_bits := c3,
               en_passant_pos := (if indices board from AND MASK_TYPE = PIECE_PAWN
                                  \<and> \<bar>from - to\<bar> = 32 then to else 0)\<rparr>"
    using PR by (simp add: b4 promote_grid_def)
  have c3: "castle_bits board' = c3" using fin by (simp add: b5)
  show "castle_bits board' AND castle_bits board = castle_bits board'"
  proof -
    have "c1 AND castle_bits board = c1" "c2 AND c1 = c2" "c3 AND c2 = c3"
      using K RF RT by (simp_all add: c1_def c2_def c3_def)
    then show ?thesis unfolding c3 by (blast intro: castle_subset_trans)
  qed
  show "board' = board\<lparr>indices := moved_grid board from to,
            castle_bits := castle_bits board',
            en_passant_pos := (if indices board from AND MASK_TYPE = PIECE_PAWN
                                  \<and> \<bar>from - to\<bar> = 32 then to else 0),
            current_player := other_player (current_player board),
            move_count := move_count board + 1\<rparr>"
    unfolding c3 using fin by (simp add: b5 moved_grid_def Let_def)
  show "0 \<le> from" "from < 128" "0 \<le> to" "to < 128" using r by simp_all
  have "mi1 = (if castles (indices board from) from to
             then \<lparr>move_type = (if indices board to \<noteq> 0 then MOVE_TYPE_CAPTURE else MOVE_TYPE_MOVE),
        capture = indices board to, capture_pos = to, rook_pos = 0,
        last_castle_bits = castle_bits board,
        last_en_passant_pos = en_passant_pos board,
        promotion = 0\<rparr>\<lparr>move_type := MOVE_TYPE_CASTLE, rook_pos := rook_from_sq from to\<rparr>
             else \<lparr>move_type = (if indices board to \<noteq> 0 then MOVE_TYPE_CAPTURE else MOVE_TYPE_MOVE),
        capture = indices board to, capture_pos = to, rook_pos = 0,
        last_castle_bits = castle_bits board,
        last_en_passant_pos = en_passant_pos board,
        promotion = 0\<rparr>)"
    using K by simp
  moreover have "mi4 = (if ep_capture (indices board from) from to (indices board to)
             then mi1\<lparr>move_type := MOVE_TYPE_CAPTURE, capture_pos := en_passant_pos board,
                     capture := king_grid (indices board) from to (en_passant_pos board)\<rparr> else mi1)"
    using PW by (simp add: b3)
  moreover have "info = (if promotes (pawn_grid (king_grid (indices board) from to)
                  (en_passant_pos board) from to (indices board to) from) to
             then mi4\<lparr>promotion := PIECE_QUEEN\<rparr> else mi4)"
    using PR by (simp add: b4)
  ultimately show "info = moved_info board from to"
    by (simp add: moved_info_def Let_def)
qed

text \<open>The equations that evaluate the model on a concrete position.\<close>

lemmas ev = default_board_def default_indices_def
  piece_defs indices_rd_def indices_wr_def shl_def shr_def
  other_player_def slide_check_def pawn_can_move_def is_legal_move.simps slide_loop.simps
  clear_castle_bits_def pm_king_def pm_rook_from_def pm_rook_to_def pm_pawn_def pm_promote_def
  perform_move_def revert_move_def find_piece.simps attack_loop.simps is_piece_attacked_def
  is_checked_after_move_def legal_and_safe_def


lemma is_legal_move_cases:
  assumes "is_legal_move board from to = Some (r, board')"
  shows "board' = board
    \<or> (\<bar>from - to\<bar> = 2 \<and> (\<exists>c. is_legal_move board (from + (if to < from then - 3 else 4))
          (from + (if to < from then - 1 else 1)) = Some (c, board')))"
  using assms
  apply (subst (asm) is_legal_move.simps)
  apply (auto split: if_splits simp: bind_eq_Some_conv Let_def)
  done

lemma is_legal_move_board_aux:
  "(if \<bar>from - to\<bar> = 2 then (if to < from then 2 else 1) else (0::nat)) \<le> n \<Longrightarrow>
   is_legal_move board from to = Some (r, board') \<Longrightarrow> board' = board"
proof (induction n arbitrary: "from" to r board')
  case 0
  then show ?case by (auto dest!: is_legal_move_cases split: if_splits)
next
  case (Suc n)
  from Suc.prems(2) show ?case
  proof (rule is_legal_move_cases [THEN disjE])
    assume "board' = board" then show ?thesis .
  next
    assume a: "\<bar>from - to\<bar> = 2 \<and> (\<exists>c. is_legal_move board (from + (if to < from then - 3 else 4))
          (from + (if to < from then - 1 else 1)) = Some (c, board'))"
    then obtain c where c: "is_legal_move board (from + (if to < from then - 3 else 4))
          (from + (if to < from then - 1 else 1)) = Some (c, board')" by blast
    show ?thesis
      by (rule Suc.IH [OF _ c]) (use a Suc.prems(1) in \<open>auto split: if_splits\<close>)
  qed
qed

lemma is_legal_move_board:
  "is_legal_move board from to = Some (r, board') \<Longrightarrow> board' = board"
  by (rule is_legal_move_board_aux [where n = 2]) auto

lemma is_legal_move_TrueD:
  assumes "is_legal_move board from to = Some (True, board')"
  shows "to AND 0x88 = 0 \<and> 0 \<le> from \<and> from < 128 \<and> 0 \<le> to \<and> to < 128
    \<and> indices board from \<noteq> 0
    \<and> indices board from AND MASK_COLOR = current_player board
    \<and> (indices board to = 0 \<or> indices board to AND MASK_COLOR \<noteq> current_player board)"
  using assms
  apply (subst (asm) is_legal_move.simps)
  apply (simp split: if_splits add: bind_eq_Some_conv indices_rd_def)
  done

lemma kind_pawn_no_slide: "p AND MASK_TYPE = PIECE_PAWN \<Longrightarrow> p AND MASK_SLIDE = 0"
proof -
  assume a: "p AND MASK_TYPE = PIECE_PAWN"
  have "p AND MASK_SLIDE = (p AND MASK_TYPE) AND MASK_SLIDE"
    by (simp add: piece_defs and.assoc)
  then show ?thesis using a by (simp add: piece_defs)
qed

lemma is_legal_move_pawnD:
  assumes "is_legal_move board from to = Some (True, board')"
    and "indices board from AND MASK_TYPE = PIECE_PAWN"
  shows "pawn_can_move board from to (indices board from) (indices board to) = Some True"
  using assms
  apply (subst (asm) is_legal_move.simps)
  apply (auto split: if_splits simp: bind_eq_Some_conv indices_rd_def slide_check_def kind_pawn_no_slide)
  done

lemma row_facts_aux:
  "\<forall>x\<in>set [0..127]. (x AND 0x70 = 0x10 \<longrightarrow> 16 \<le> x \<and> x < 32) \<and> (x AND 0x70 = 0x60 \<longrightarrow> 96 \<le> x \<and> x < 112)"
  by code_simp

lemma row_0x10: "0 \<le> x \<Longrightarrow> x < 128 \<Longrightarrow> x AND 0x70 = 0x10 \<Longrightarrow> 16 \<le> x \<and> x < (32::int)"
  using row_facts_aux by auto

lemma row_0x60: "0 \<le> x \<Longrightarrow> x < 128 \<Longrightarrow> x AND 0x70 = 0x60 \<Longrightarrow> 96 \<le> x \<and> x < (112::int)"
  using row_facts_aux by auto

lemma u8_enum: "(p :: u8) \<in> set (map word_of_nat [0..<256])"
proof -
  have "unat p < 256" using unsigned_less [of p, where ?'a = nat] by simp
  moreover have "p = word_of_nat (unat p)" by simp
  ultimately show ?thesis by (metis (no_types) atLeastLessThan_iff image_eqI list.set_map set_upt zero_le)
qed

lemma u8_all: "(\<forall>p \<in> set (map word_of_nat [0..<256]). P (p :: u8)) \<Longrightarrow> P p"
  using u8_enum by blast

lemma color_cases: "(p :: u8) AND MASK_COLOR = PIECE_WHITE \<or> p AND MASK_COLOR = PIECE_BLACK"
  unfolding piece_defs by (rule u8_all) code_simp

lemma perform_moves_castle_bits:
  "perform_moves board moves = Some board' \<Longrightarrow>
   castle_bits board' AND castle_bits board = castle_bits board'"
proof (induction moves arbitrary: board)
  case Nil
  then show ?case by simp
next
  case (Cons m moves)
  obtain "from" to where m: "m = (from, to)" by (cases m)
  from Cons.prems m obtain info b1 where
    p: "perform_move board from to = Some (info, b1)" and rest: "perform_moves b1 moves = Some board'"
    by (auto simp: bind_eq_Some_conv)
  from Cons.IH [OF rest] perform_move_Some(2) [OF p] show ?case
    by (rule castle_subset_trans)
qed

lemma pawn_move_shape:
  assumes "is_legal_move board from to = Some (True, board0)"
    and "indices board from AND MASK_TYPE = PIECE_PAWN"
  shows "from \<noteq> to"
    and "ep_capture (indices board from) from to (indices board to) \<Longrightarrow>
           en_passant_pos board \<noteq> from \<and> en_passant_pos board \<noteq> to
           \<and> (en_passant_pos board = from - 1 \<or> en_passant_pos board = from + 1)"
proof -
  from is_legal_move_pawnD [OF assms]
  have p: "pawn_can_move board from to (indices board from) (indices board to) = Some True" .
  then show "from \<noteq> to"
    by (auto simp: pawn_can_move_def Let_def bind_eq_Some_conv split: if_splits)
  assume "ep_capture (indices board from) from to (indices board to)"
  with p show "en_passant_pos board \<noteq> from \<and> en_passant_pos board \<noteq> to
           \<and> (en_passant_pos board = from - 1 \<or> en_passant_pos board = from + 1)"
    by (auto simp: pawn_can_move_def ep_capture_def Let_def bind_eq_Some_conv split: if_splits)
qed

subsection \<open>Make and undo\<close>

lemma indices_rd_Some: "indices_rd board i = Some v \<longleftrightarrow> 0 \<le> i \<and> i < 128 \<and> v = indices board i"
  by (auto simp: indices_rd_def)

lemma indices_wr_Some:
  "indices_wr board i v = Some board' \<longleftrightarrow>
     0 \<le> i \<and> i < 128 \<and> board' = board\<lparr>indices := (indices board)(i := v)\<rparr>"
  by (auto simp: indices_wr_def)

lemma revert_move_Some:
  assumes "revert_move board from to info = Some board'"
  shows "board' = board\<lparr>indices := reverted_grid (indices board) from to info,
            castle_bits := last_castle_bits info,
            en_passant_pos := last_en_passant_pos info,
            current_player := other_player (current_player board),
            move_count := move_count board - 1\<rparr>"
  using assms
  by (auto simp del: fun_upd_apply simp: revert_move_def reverted_grid_def bind_eq_Some_conv
      indices_rd_Some indices_wr_Some Let_def rook_from_sq_def rook_to_sq_def split: if_splits)


lemma attack_loop_board:
  "attack_loop board pos i = Some (r, board') \<Longrightarrow> board' = board"
proof (induction board pos i rule: attack_loop.induct)
  case (1 board pos i)
  show ?case
  proof (cases "i < 128")
    case False
    with "1.prems" show ?thesis by (simp add: attack_loop.simps)
  next
    case True
    with "1.prems" obtain hit b1 where
      l: "is_legal_move board i pos = Some (hit, b1)"
      and rest: "(if hit then Some (True, b1) else attack_loop b1 pos (i + 1)) = Some (r, board')"
      by (subst (asm) attack_loop.simps) (auto simp: bind_eq_Some_conv)
    have b1: "b1 = board" using l by (rule is_legal_move_board)
    show ?thesis
    proof (cases hit)
      case True
      with rest b1 show ?thesis by simp
    next
      case False
      with rest have "attack_loop b1 pos (i + 1) = Some (r, board')" by simp
      from "1.IH" [OF \<open>i < 128\<close> _ _ False this] l b1 show ?thesis by simp
    qed
  qed
qed

lemma is_piece_attacked_board:
  "is_piece_attacked board piece = Some (r, board') \<Longrightarrow> board' = board"
  unfolding is_piece_attacked_def by (rule attack_loop_board)


lemma is_legal_move_same_cell:
  "0 \<le> sq \<Longrightarrow> sq < 128 \<Longrightarrow> is_legal_move board sq sq = Some (False, board)"
  by (subst is_legal_move.simps) (simp add: indices_rd_def)

lemma legal_shape:
  assumes "is_legal_move board from to = Some (True, board0)"
  shows "from \<noteq> to"
    and "current_player board = PIECE_WHITE \<or> current_player board = PIECE_BLACK"
proof -
  note d = is_legal_move_TrueD [OF assms]
  show "from \<noteq> to"
  proof
    assume "from = to"
    with d assms is_legal_move_same_cell [of to board] show False by simp
  qed
  from d color_cases [of "indices board from"]
  show "current_player board = PIECE_WHITE \<or> current_player board = PIECE_BLACK" by auto
qed

lemma queen_nz: "PIECE_QUEEN \<noteq> 0"
  by (simp add: piece_defs)

lemma queen_color: "(PIECE_QUEEN OR (p AND MASK_COLOR)) AND MASK_COLOR = p AND MASK_COLOR"
  unfolding piece_defs by (rule u8_all) code_simp

lemma not_pawn_simps:
  "p AND MASK_TYPE \<noteq> PIECE_PAWN \<Longrightarrow> \<not> ep_capture p from to c"
  "p AND MASK_TYPE \<noteq> PIECE_PAWN \<Longrightarrow> \<not> promotes p to"
  by (simp_all add: ep_capture_def promotes_def)

lemma pawn_not_castles: "p AND MASK_TYPE = PIECE_PAWN \<Longrightarrow> \<not> castles p from to"
  by (simp add: castles_def piece_defs)

lemma castles_not_pawn: "castles p from to \<Longrightarrow> p AND MASK_TYPE \<noteq> PIECE_PAWN"
  by (auto simp: castles_def piece_defs)

lemmas moved_defs = moved_grid_def moved_info_def pawn_grid_def promote_grid_def king_grid_def Let_def

lemma make_undo_grid_king:
  assumes "castles (indices board from) from to"
    "indices board (rook_to_sq from to) = 0"
  shows "reverted_grid (moved_grid board from to) from to (moved_info board from to) = indices board"
proof -
  note np = not_pawn_simps [OF castles_not_pawn [OF assms(1)]]
  from assms(1) consider (lo) "to = from - 2" | (hi) "to = from + 2"
    unfolding castles_def by fastforce
  then show ?thesis
  proof cases
    case lo
    with assms show ?thesis
      by (simp add: moved_defs np reverted_grid_def rook_from_sq_def rook_to_sq_def fun_eq_iff)
  next
    case hi
    with assms show ?thesis
      by (simp add: moved_defs np reverted_grid_def rook_from_sq_def rook_to_sq_def fun_eq_iff)
  qed
qed

lemma make_undo_grid_other:
  assumes "from \<noteq> to" "indices board from AND MASK_TYPE \<noteq> PIECE_PAWN"
    "\<not> castles (indices board from) from to"
  shows "reverted_grid (moved_grid board from to) from to (moved_info board from to) = indices board"
  using assms
  by (simp add: moved_defs not_pawn_simps reverted_grid_def fun_eq_iff)

lemma make_undo_grid_pawn:
  assumes "from \<noteq> to" "indices board from AND MASK_TYPE = PIECE_PAWN"
    "\<not> ep_capture (indices board from) from to (indices board to)"
    "PIECE_PAWN OR (indices board from AND MASK_COLOR) = indices board from"
  shows "reverted_grid (moved_grid board from to) from to (moved_info board from to) = indices board"
proof -
  note nk = pawn_not_castles [OF assms(2)]
  show ?thesis
  proof (cases "promotes (indices board from) to")
    case True
    with assms nk show ?thesis
      by (simp add: moved_defs reverted_grid_def fun_eq_iff queen_nz queen_color)
  next
    case False
    with assms nk show ?thesis
      by (simp add: moved_defs reverted_grid_def fun_eq_iff)
  qed
qed

lemma make_undo_grid_ep:
  assumes "from \<noteq> to" "indices board from AND MASK_TYPE = PIECE_PAWN"
    "ep_capture (indices board from) from to (indices board to)"
    "en_passant_pos board \<noteq> from" "en_passant_pos board \<noteq> to"
    "PIECE_PAWN OR (indices board from AND MASK_COLOR) = indices board from"
  shows "reverted_grid (moved_grid board from to) from to (moved_info board from to) = indices board"
proof -
  note nk = pawn_not_castles [OF assms(2)]
  from assms(3) have c0: "indices board to = 0" by (simp add: ep_capture_def)
  show ?thesis
  proof (cases "promotes (indices board from) to")
    case True
    with assms nk c0 show ?thesis
      by (simp add: moved_defs reverted_grid_def fun_eq_iff queen_nz queen_color)
  next
    case False
    with assms nk c0 show ?thesis
      by (simp add: moved_defs reverted_grid_def fun_eq_iff)
  qed
qed


lemma other_player_twice:
  "p = PIECE_WHITE \<or> p = PIECE_BLACK \<Longrightarrow> other_player (other_player p) = p"
  by (auto simp: other_player_def piece_defs)

lemma make_undo_grid:
  assumes legal: "is_legal_move board from to = Some (True, board0)"
    and safe: "undo_safe board from to"
  shows "reverted_grid (moved_grid board from to) from to (moved_info board from to) = indices board"
proof -
  have ne: "from \<noteq> to" using legal by (rule legal_shape)
  have b0: "board0 = board" using legal by (rule is_legal_move_board)
  consider (king) "castles (indices board from) from to"
    | (ep) "indices board from AND MASK_TYPE = PIECE_PAWN"
        "ep_capture (indices board from) from to (indices board to)"
    | (pawn) "indices board from AND MASK_TYPE = PIECE_PAWN"
        "\<not> ep_capture (indices board from) from to (indices board to)"
    | (other) "indices board from AND MASK_TYPE \<noteq> PIECE_PAWN"
        "\<not> castles (indices board from) from to"
    by blast
  then show ?thesis
  proof cases
    case king
    with safe show ?thesis by (intro make_undo_grid_king) (simp_all add: undo_safe_def)
  next
    case ep
    from pawn_move_shape(2) [OF legal [unfolded b0] ep]
    have "en_passant_pos board \<noteq> from" "en_passant_pos board \<noteq> to" by simp_all
    with ep safe ne show ?thesis by (intro make_undo_grid_ep) (simp_all add: undo_safe_def)
  next
    case pawn
    with safe ne show ?thesis by (intro make_undo_grid_pawn) (simp_all add: undo_safe_def)
  next
    case other
    with ne show ?thesis by (intro make_undo_grid_other)
  qed
qed

lemma make_undo_Some:
  assumes legal: "is_legal_move board from to = Some (True, board0)"
    and pm: "perform_move board from to = Some (info, board1)"
    and rv: "revert_move board1 from to info = Some board2"
  shows "board2 = board\<lparr>indices :=
           reverted_grid (moved_grid board from to) from to (moved_info board from to)\<rparr>"
proof -
  note p = perform_move_Some [OF pm]
  have "board2 = board1\<lparr>indices := reverted_grid (indices board1) from to info,
            castle_bits := last_castle_bits info,
            en_passant_pos := last_en_passant_pos info,
            current_player := other_player (current_player board1),
            move_count := move_count board1 - 1\<rparr>"
    using rv by (rule revert_move_Some)
  also have "\<dots> = board\<lparr>indices := reverted_grid (moved_grid board from to) from to (moved_info board from to),
            castle_bits := castle_bits board,
            en_passant_pos := en_passant_pos board,
            current_player := other_player (other_player (current_player board)),
            move_count := move_count board + 1 - 1\<rparr>"
    by (subst (1 2 3 4) p(1)) (simp add: p(7) moved_info_def Let_def)
  also have "\<dots> = board\<lparr>indices :=
           reverted_grid (moved_grid board from to) from to (moved_info board from to)\<rparr>"
    by (simp add: other_player_twice [OF legal_shape(2) [OF legal]])
  finally show ?thesis .
qed

lemma make_undo:
  assumes legal: "is_legal_move board from to = Some (True, board0)"
    and safe: "undo_safe board from to"
    and pm: "perform_move board from to = Some (info, board1)"
    and rv: "revert_move board1 from to info = Some board2"
  shows "board2 = board"
  by (simp add: make_undo_Some [OF legal pm rv] make_undo_grid [OF legal safe])

lemma is_checked_after_move_Some:
  assumes "is_legal_move board from to = Some (True, board0)"
    and "is_checked_after_move board from to = Some (checked, board')"
  shows "board' = board\<lparr>indices :=
           reverted_grid (moved_grid board from to) from to (moved_info board from to)\<rparr>"
proof -
  from assms(2) obtain info b1 c b2 where
    pm: "perform_move board from to = Some (info, b1)"
    and at: "is_piece_attacked b1 (PIECE_KING OR other_player (current_player b1)) = Some (c, b2)"
    and rv: "revert_move b2 from to info = Some board'"
    by (auto simp: is_checked_after_move_def bind_eq_Some_conv Let_def)
  from at have "b2 = b1" by (rule is_piece_attacked_board)
  with rv have "revert_move b1 from to info = Some board'" by simp
  from make_undo_Some [OF assms(1) pm this] show ?thesis .
qed

lemma is_checked_after_move_board:
  assumes "is_legal_move board from to = Some (True, board0)"
    and "undo_safe board from to"
    and "is_checked_after_move board from to = Some (checked, board')"
  shows "board' = board"
  by (simp add: is_checked_after_move_Some [OF assms(1,3)] make_undo_grid [OF assms(1,2)])

lemma legal_and_safe_board:
  assumes "legal_and_safe board from to = Some (r, board')"
    and "undo_safe board from to"
  shows "board' = board"
proof -
  from assms(1) obtain legal b1 where
    l: "is_legal_move board from to = Some (legal, b1)"
    and rest: "(if legal then is_checked_after_move b1 from to \<bind> (\<lambda>(checked, board). Some (\<not> checked, board))
                else Some (False, b1)) = Some (r, board')"
    by (auto simp: legal_and_safe_def bind_eq_Some_conv)
  have b1: "b1 = board" using l by (rule is_legal_move_board)
  show ?thesis
  proof (cases legal)
    case False
    with rest b1 show ?thesis by simp
  next
    case True
    with rest b1 obtain c where "is_checked_after_move board from to = Some (c, board')"
      by (auto simp: bind_eq_Some_conv)
    moreover from l True have "is_legal_move board from to = Some (True, b1)" by simp
    ultimately show ?thesis using assms(2) by (blast intro: is_checked_after_move_board)
  qed
qed

subsection \<open>The counting loops\<close>

lemma idle_is_legal_move:
  assumes "0 \<le> from" "from < 128"
    and "indices board from = 0 \<or> indices board from AND MASK_COLOR \<noteq> current_player board"
  shows "is_legal_move board from to = Some (False, board)"
  using assms by (subst is_legal_move.simps) (auto simp: indices_rd_def)

lemma idle_legal_and_safe:
  assumes "0 \<le> from" "from < 128"
    and "indices board from = 0 \<or> indices board from AND MASK_COLOR \<noteq> current_player board"
  shows "legal_and_safe board from to = Some (False, board)"
  by (simp add: legal_and_safe_def idle_is_legal_move [OF assms])

lemma count_to_step:
  assumes "legal_and_safe board from to = Some (ok, board')" "to < 128"
  shows "count_to board from to n = count_to board' from (to + 1) (n + (if ok then 1 else 0))"
  using assms by (subst count_to.simps) simp

lemma count_to_end: "count_to board from 128 n = Some (n, board)"
  by (subst count_to.simps) simp

lemma count_to_skip:
  "(\<And>to. lo \<le> to \<Longrightarrow> to < hi \<Longrightarrow> legal_and_safe board from to = Some (False, board))
   \<Longrightarrow> hi \<le> 128 \<Longrightarrow> lo \<le> hi \<Longrightarrow> count_to board from lo n = count_to board from hi n"
proof (induction "nat (hi - lo)" arbitrary: lo)
  case 0
  then show ?case by simp
next
  case (Suc k)
  then have lt: "lo < hi" by linarith
  have "legal_and_safe board from lo = Some (False, board)"
    using lt by (intro Suc.prems(1)) simp_all
  then have "count_to board from lo n = count_to board from (lo + 1) n"
    using count_to_step [of board "from" lo False board n] lt Suc.prems(2) by simp
  also have "\<dots> = count_to board from hi n"
    using Suc.hyps(2) lt Suc.prems by (intro Suc.hyps(1)) simp_all
  finally show ?case .
qed

lemma count_from_step:
  assumes "count_to board from 0 n = Some (n', board')" "from < 128"
  shows "count_from board from n = count_from board' (from + 1) n'"
  using assms by (subst count_from.simps) simp

lemma count_from_end: "count_from board 128 n = Some (n, board)"
  by (subst count_from.simps) simp

lemma count_to_idle:
  assumes "0 \<le> from" "from < 128"
    and "indices board from = 0 \<or> indices board from AND MASK_COLOR \<noteq> current_player board"
  shows "count_to board from 0 n = Some (n, board)"
proof -
  have "count_to board from 0 n = count_to board from 128 n"
    by (rule count_to_skip) (simp_all add: idle_legal_and_safe [OF assms])
  then show ?thesis by (simp add: count_to_end)
qed

lemma count_from_skip:
  "(\<And>from. lo \<le> from \<Longrightarrow> from < hi \<Longrightarrow>
       indices board from = 0 \<or> indices board from AND MASK_COLOR \<noteq> current_player board)
   \<Longrightarrow> 0 \<le> lo \<Longrightarrow> hi \<le> 128 \<Longrightarrow> lo \<le> hi
   \<Longrightarrow> count_from board lo n = count_from board hi n"
proof (induction "nat (hi - lo)" arbitrary: lo)
  case 0
  then show ?case by simp
next
  case (Suc k)
  then have lt: "lo < hi" by linarith
  have "indices board lo = 0 \<or> indices board lo AND MASK_COLOR \<noteq> current_player board"
    using lt by (intro Suc.prems(1)) simp_all
  then have "count_to board lo 0 n = Some (n, board)"
    using Suc.prems lt by (intro count_to_idle) simp_all
  then have "count_from board lo n = count_from board (lo + 1) n"
    using lt Suc.prems by (intro count_from_step) simp_all
  also have "\<dots> = count_from board hi n"
    using Suc.hyps(2) Suc.prems lt by (intro Suc.hyps(1)) simp_all
  finally show ?case .
qed

subsection \<open>The evaluation of \<open>mate_board\<close>\<close>

lemma mate_idle:
  "\<forall>f\<in>set [0..127]. f = 0x70 \<or> f = 0x73 \<or> f = 0x77 \<or> indices mate_board f = 0
      \<or> indices mate_board f AND MASK_COLOR \<noteq> current_player mate_board"
  by code_simp

lemma mate_after_idle:
  "\<forall>f\<in>set [0..127]. f = 0x70 \<or> f = 0x73 \<or> f = 0x77 \<or> indices mate_board_after f = 0
      \<or> indices mate_board_after f AND MASK_COLOR \<noteq> current_player mate_board_after"
  by code_simp

lemma mate_row70:
  "\<forall>t\<in>set [0..127]. map_option fst (legal_and_safe mate_board 0x70 t) = Some False
      \<and> undo_safe mate_board 0x70 t"
  by code_simp

lemma mate_row73_lo:
  "\<forall>t\<in>set [0..0x74]. map_option fst (legal_and_safe mate_board 0x73 t) = Some False
      \<and> undo_safe mate_board 0x73 t"
  by code_simp

lemma mate_row73_castle:
  "map_option fst (is_legal_move mate_board 0x73 0x75) = Some True
   \<and> map_option fst (is_checked_after_move mate_board 0x73 0x75) = Some True"
  by code_simp

lemma mate_row73_hi:
  "\<forall>t\<in>set [0x76..127]. map_option fst (legal_and_safe mate_board 0x73 t) = Some False"
  by code_simp

lemma mate_row77:
  "\<forall>t\<in>set [0..127]. map_option fst (legal_and_safe mate_board 0x77 t) = Some False"
  by code_simp

lemma mate_after_row73_hi:
  "\<forall>t\<in>set [0x76..127]. map_option fst (legal_and_safe mate_board_after 0x73 t) = Some False
      \<and> undo_safe mate_board_after 0x73 t"
  by code_simp

lemma mate_after_row77_lo:
  "\<forall>t\<in>set [0..0x36]. map_option fst (legal_and_safe mate_board_after 0x77 t) = Some False
      \<and> undo_safe mate_board_after 0x77 t"
  by code_simp

lemma mate_after_row77_capture:
  "map_option fst (legal_and_safe mate_board_after 0x77 0x37) = Some True
   \<and> undo_safe mate_board_after 0x77 0x37"
  by code_simp

lemma mate_after_row77_hi:
  "\<forall>t\<in>set [0x38..127]. map_option fst (legal_and_safe mate_board_after 0x77 t) = Some False
      \<and> undo_safe mate_board_after 0x77 t"
  by code_simp

lemma mate_checked:
  "map_option fst (is_piece_attacked (mate_board\<lparr>current_player := PIECE_BLACK\<rparr>)
      (PIECE_KING OR PIECE_WHITE)) = Some True"
  by code_simp

lemma mate_probe_grid:
  "reverted_grid (moved_grid mate_board 0x73 0x75) 0x73 0x75 (moved_info mate_board 0x73 0x75)
     = (indices mate_board)(0x74 := 0)"
  by (simp add: moved_defs reverted_grid_def castles_def ep_capture_def promotes_def
      rook_from_sq_def rook_to_sq_def mate_board_def empty_board_def piece_defs fun_eq_iff)

text \<open>From a table entry to the call's full result.\<close>

lemma legal_and_safe_entry:
  assumes "map_option fst (legal_and_safe board from to) = Some r \<and> undo_safe board from to"
  shows "legal_and_safe board from to = Some (r, board)"
proof -
  from assms obtain b' where e: "legal_and_safe board from to = Some (r, b')"
    by (cases "legal_and_safe board from to") auto
  with assms legal_and_safe_board [OF e] show ?thesis by simp
qed

lemma mate_castle_probe:
  "legal_and_safe mate_board 0x73 0x75 = Some (False, mate_board_after)"
proof -
  from mate_row73_castle obtain b0 b' where
    l: "is_legal_move mate_board 0x73 0x75 = Some (True, b0)"
    and c: "is_checked_after_move mate_board 0x73 0x75 = Some (True, b')"
    by (cases "is_legal_move mate_board 0x73 0x75"; cases "is_checked_after_move mate_board 0x73 0x75")
       auto
  have b0: "b0 = mate_board" using l by (rule is_legal_move_board)
  have "b' = mate_board_after"
    unfolding is_checked_after_move_Some [OF l c] mate_probe_grid mate_board_after_def ..
  with l c b0 show ?thesis by (simp add: legal_and_safe_def)
qed

lemma count_to_quiet:
  assumes "\<forall>t\<in>set [lo..hi - 1]. map_option fst (legal_and_safe board from t) = Some False
             \<and> undo_safe board from t"
    and "hi \<le> 128" "lo \<le> hi"
  shows "count_to board from lo n = count_to board from hi n"
proof (rule count_to_skip)
  fix t :: int assume "lo \<le> t" "t < hi"
  then have "t \<in> set [lo..hi - 1]" by simp
  with assms(1) show "legal_and_safe board from t = Some (False, board)"
    by (intro legal_and_safe_entry) blast
qed (use assms in simp_all)

lemma count_from_quiet:
  assumes "\<forall>f\<in>set [0..127]. f = a \<or> f = b \<or> f = c \<or> indices board f = 0
             \<or> indices board f AND MASK_COLOR \<noteq> current_player board"
    and "0 \<le> lo" "hi \<le> 128" "lo \<le> hi"
    and "a < lo \<or> hi \<le> a" "b < lo \<or> hi \<le> b" "c < lo \<or> hi \<le> c"
  shows "count_from board lo n = count_from board hi n"
proof (rule count_from_skip)
  fix f :: int assume "lo \<le> f" "f < hi"
  with assms have "f \<in> set [0..127]" "f \<noteq> a" "f \<noteq> b" "f \<noteq> c" by auto
  with assms(1) show "indices board f = 0 \<or> indices board f AND MASK_COLOR \<noteq> current_player board"
    by blast
qed (use assms in simp_all)

lemma mate_count:
  "count_from mate_board 0 0 = Some (1, mate_board_after)"
proof -
  have "count_from mate_board 0 0 = count_from mate_board 0x70 0"
    by (rule count_from_quiet [OF mate_idle]) simp_all
  also have "\<dots> = count_from mate_board 0x71 0"
  proof -
    have "count_to mate_board 0x70 0 0 = count_to mate_board 0x70 128 0"
      by (rule count_to_quiet) (use mate_row70 in simp_all)
    then show ?thesis
      using count_from_step [of mate_board "0x70" 0 0 mate_board] by (simp add: count_to_end)
  qed
  also have "\<dots> = count_from mate_board 0x73 0"
    by (rule count_from_quiet [OF mate_idle]) simp_all
  also have "\<dots> = count_from mate_board_after 0x74 0"
  proof -
    have "count_to mate_board 0x73 0 0 = count_to mate_board 0x73 0x75 0"
      by (rule count_to_quiet) (use mate_row73_lo in simp_all)
    also have "\<dots> = count_to mate_board_after 0x73 0x76 0"
      using count_to_step [OF mate_castle_probe, of 0] by simp
    also have "\<dots> = count_to mate_board_after 0x73 128 0"
      by (rule count_to_quiet) (use mate_after_row73_hi in simp_all)
    finally show ?thesis
      using count_from_step [of mate_board "0x73" 0 0 mate_board_after] by (simp add: count_to_end)
  qed
  also have "\<dots> = count_from mate_board_after 0x77 0"
    by (rule count_from_quiet [OF mate_after_idle]) simp_all
  also have "\<dots> = count_from mate_board_after 0x78 1"
  proof -
    have "count_to mate_board_after 0x77 0 0 = count_to mate_board_after 0x77 0x37 0"
      by (rule count_to_quiet) (use mate_after_row77_lo in simp_all)
    also have "\<dots> = count_to mate_board_after 0x77 0x38 1"
      using count_to_step [OF legal_and_safe_entry [OF mate_after_row77_capture], of 0] by simp
    also have "\<dots> = count_to mate_board_after 0x77 128 1"
      by (rule count_to_quiet) (use mate_after_row77_hi in simp_all)
    finally show ?thesis
      using count_from_step [of mate_board_after "0x77" 0 1 mate_board_after]
      by (simp add: count_to_end)
  qed
  also have "\<dots> = count_from mate_board_after 128 1"
    by (rule count_from_quiet [OF mate_after_idle]) simp_all
  finally show ?thesis by (simp add: count_from_end)
qed

lemma mate_end_condition:
  "check_end_condition_reached mate_board
     = Some (mate_board_after\<lparr>game_state := STATE_PLAYING\<rparr>)"
proof -
  have cp: "current_player mate_board = PIECE_WHITE"
    by (simp add: mate_board_def empty_board_def)
  from mate_checked obtain b' where
    "is_piece_attacked (mate_board\<lparr>current_player := PIECE_BLACK\<rparr>) (PIECE_KING OR PIECE_WHITE)
       = Some (True, b')"
    by (cases "is_piece_attacked (mate_board\<lparr>current_player := PIECE_BLACK\<rparr>)
                 (PIECE_KING OR PIECE_WHITE)") auto
  with is_piece_attacked_board [OF this]
  have at: "is_piece_attacked (mate_board\<lparr>current_player := PIECE_BLACK\<rparr>)
              (PIECE_KING OR PIECE_WHITE)
            = Some (True, mate_board\<lparr>current_player := PIECE_BLACK\<rparr>)"
    by simp
  have restored: "mate_board\<lparr>current_player := PIECE_WHITE\<rparr> = mate_board"
    by (simp add: mate_board_def empty_board_def)
  show ?thesis
    by (simp add: check_end_condition_reached_def cp other_player_def at restored mate_count)
qed



lemma in_upto: "lo \<le> (t::int) \<Longrightarrow> t \<le> hi \<Longrightarrow> t \<in> set [lo..hi]"
  by simp

lemma mate_rows:
  assumes "0 \<le> f" "f \<le> 127" "0 \<le> t" "t \<le> 127"
  shows "map_option fst (legal_and_safe mate_board f t) = Some False"
proof -
  have f: "f \<in> set [0..127]" and t: "t \<in> set [0..127]"
    using assms by (simp_all only: in_upto)
  consider "f = 0x70" | "f = 0x73" "t \<le> 0x74" | "f = 0x73" "t = 0x75" | "f = 0x73" "0x76 \<le> t"
    | "f = 0x77" | "f \<noteq> 0x70" "f \<noteq> 0x73" "f \<noteq> 0x77"
    by linarith
  then show ?thesis
  proof cases
    case 1 with mate_row70 t show ?thesis by blast
  next
    case 2
    with assms have "t \<in> set [0..0x74]" by (intro in_upto) simp_all
    with mate_row73_lo 2 show ?thesis by blast
  next
    case 3 then show ?thesis by (simp add: mate_castle_probe)
  next
    case 4
    with assms have "t \<in> set [0x76..127]" by (intro in_upto) simp_all
    with mate_row73_hi 4 show ?thesis by blast
  next
    case 5 with mate_row77 t show ?thesis by blast
  next
    case 6
    with mate_idle f have "indices mate_board f = 0
      \<or> indices mate_board f AND MASK_COLOR \<noteq> current_player mate_board" by blast
    with assms show ?thesis by (simp add: idle_legal_and_safe)
  qed
qed

lemma mate_no_legal_move:
  "filter (\<lambda>(from, to). map_option fst (legal_and_safe mate_board from to) \<noteq> Some False)
     (List.product [0..127] [0..127]) = []"
proof -
  have "\<not> (case x of (from, to) \<Rightarrow>
              map_option fst (legal_and_safe mate_board from to) \<noteq> Some False)"
    if "x \<in> set (List.product [0..127] [0..127])" for x
  proof -
    obtain f t where x: "x = (f, t)" by (cases x)
    with that have "f \<in> {0..127}" "t \<in> {0..127}" by (simp_all only: set_product set_upto mem_Times_iff fst_conv snd_conv)
    then have "map_option fst (legal_and_safe mate_board f t) = Some False"
      by (intro mate_rows) simp_all
    then show ?thesis unfolding x by simp
  qed
  then show ?thesis unfolding filter_empty_conv by blast
qed

section \<open>The claims\<close>

text \<open>
  C10. A piece can never move to its own square: for every board and every cell index
  \<open>sq\<close> in \<open>0..127\<close>, \<open>is_legal_move(board, sq, sq)\<close> returns false. An empty source is
  rejected by the empty-source test, an occupied one by the own-colour test on the
  destination, before any geometry is consulted.
\<close>

theorem no_move_to_own_square:
  "0 \<le> sq \<Longrightarrow> sq < 128 \<Longrightarrow> is_legal_move board sq sq = Some (False, board)"
  by (rule is_legal_move_same_cell)

theorem no_move_to_own_square_witness:
  "(0::int) \<le> 0x73 \<and> (0x73::int) < 128 \<and> is_legal_move default_board 0x73 0x73 = Some (False, default_board)"
  using no_move_to_own_square [of "0x73" default_board] by simp

text \<open>
  C6. The oracle is free of side effects: whenever \<open>is_legal_move(board, from, to)\<close>
  returns, for any pair of integers and through the recursive rook query of a castling
  move, the board it hands back is the board it was given, field by field. (Where the C
  code would read outside \<open>indices\<close> the model has no result at all.)
\<close>

theorem is_legal_move_leaves_board:
  "is_legal_move board from to = Some (r, board') \<Longrightarrow> board' = board"
  by (rule is_legal_move_board)

theorem is_legal_move_leaves_board_witness:
  "is_legal_move default_board 0x64 0x44 = Some (True, default_board)"
proof -
  obtain r b where e: "is_legal_move default_board 0x64 0x44 = Some (r, b)" and r: "r = True"
    by (simp add: ev)
  from is_legal_move_leaves_board [OF e] e r show ?thesis by simp
qed

text \<open>
  C8. A pawn's double push (\<open>|from - to| = 32\<close>) is accepted by the oracle only from the
  pawn's starting rank: rank \<open>0x10\<close> for a Black pawn, rank \<open>0x60\<close> for a White pawn. So
  a White pawn on rank \<open>0x10\<close> and a Black pawn on rank \<open>0x60\<close> have no accepted double
  push: the square two ranks ahead of them is off the board, and the off-board test and
  the bounds of the grid reject it.
\<close>

theorem double_push_from_starting_rank:
  assumes "is_legal_move board from to = Some (True, board')"
    and "indices board from AND MASK_TYPE = PIECE_PAWN"
    and "\<bar>from - to\<bar> = 32"
  shows "from AND MASK_ROW =
           (if indices board from AND MASK_COLOR = PIECE_BLACK then 0x10 else 0x60)"
proof -
  from is_legal_move_TrueD [OF assms(1)]
  have r: "0 \<le> from" "from < 128" "0 \<le> to" "to < 128" by simp_all
  from is_legal_move_pawnD [OF assms(1,2)] assms(3)
  have row: "from AND MASK_ROW = 0x60 \<or> from AND MASK_ROW = 0x10"
    and col: "uint (indices board from AND MASK_COLOR) = (if from - to > 0 then 0 else 8)"
    by (auto simp: pawn_can_move_def Let_def bind_eq_Some_conv split: if_splits)
  show ?thesis
  proof (cases "from - to > 0")
    case True
    with assms(3) r have "32 \<le> from" by simp
    with row r have "from AND MASK_ROW = 0x60"
      using row_0x10 [of "from"] by (auto simp: MASK_ROW_def)
    moreover from True col have "indices board from AND MASK_COLOR \<noteq> PIECE_BLACK"
      by (auto simp: piece_defs)
    ultimately show ?thesis by simp
  next
    case False
    with assms(3) r have "from < 96" by simp
    with row r have "from AND MASK_ROW = 0x10"
      using row_0x60 [of "from"] by (auto simp: MASK_ROW_def)
    moreover from False col have "uint (indices board from AND MASK_COLOR) = 8" by simp
    then have "indices board from AND MASK_COLOR = PIECE_BLACK"
      using color_cases [of "indices board from"] by (auto simp: piece_defs)
    ultimately show ?thesis by simp
  qed
qed

theorem double_push_from_starting_rank_witness:
  "is_legal_move default_board 0x64 0x44 = Some (True, default_board)
   \<and> indices default_board 0x64 AND MASK_TYPE = PIECE_PAWN
   \<and> \<bar>0x64 - 0x44\<bar> = (32::int)
   \<and> (0x64::int) AND MASK_ROW = 0x60"
proof -
  have a: "is_legal_move default_board 0x64 0x44 = Some (True, default_board)" by (simp add: ev)
  have b: "indices default_board 0x64 AND MASK_TYPE = PIECE_PAWN" by (simp add: ev)
  have c: "\<bar>0x64 - 0x44\<bar> = (32::int)" by simp
  from double_push_from_starting_rank [OF a b c] a b c show ?thesis by (simp add: ev)
qed

text \<open>
  C9. Castle rights never re-set: whenever \<open>perform_move(from, to)\<close> returns, for any
  board and any pair, the castle mask after it is a bitwise subset of the mask before
  it; and so is the mask after any sequence of makes without undo.
\<close>

theorem castle_rights_only_clear:
  "(perform_move board from to = Some (info, board1) \<longrightarrow>
      castle_bits board1 AND castle_bits board = castle_bits board1)
   \<and> (perform_moves board moves = Some board2 \<longrightarrow>
      castle_bits board2 AND castle_bits board = castle_bits board2)"
  using perform_move_Some(2) perform_moves_castle_bits by blast

theorem castle_rights_only_clear_witness:
  "\<exists>info board1 board2.
     perform_move default_board 0x63 0x43 = Some (info, board1)
     \<and> castle_bits board1 = 0xf
     \<and> perform_moves default_board [(0x63, 0x43), (0x13, 0x33), (0x73, 0x63)] = Some board2
     \<and> castle_bits board2 = 0xc"
proof -
  obtain info board1 where a: "perform_move default_board 0x63 0x43 = Some (info, board1)"
    and a': "castle_bits board1 = 0xf"
    by (simp add: ev)
  obtain board2 where
    b: "perform_moves default_board [(0x63, 0x43), (0x13, 0x33), (0x73, 0x63)] = Some board2"
    and b': "castle_bits board2 = 0xc"
    by (simp add: ev)
  from castle_rights_only_clear [of default_board "0x63" "0x43" info board1
      "[(0x63, 0x43), (0x13, 0x33), (0x73, 0x63)]" board2] a a' b b'
  show ?thesis by blast
qed

text \<open>
  C4. After \<open>perform_move(from, to)\<close> the en-passant square is \<open>to\<close> if the mover was a
  pawn and \<open>|from - to| = 32\<close>, and 0 in every other case. This holds for every move
  that \<open>perform_move\<close> carries out, pseudo-legal or not.
\<close>

theorem en_passant_square_after_move:
  assumes "perform_move board from to = Some (info, board')"
  shows "en_passant_pos board' =
           (if indices board from AND MASK_TYPE = PIECE_PAWN \<and> \<bar>from - to\<bar> = 32 then to else 0)"
  by (subst perform_move_Some(1) [OF assms]) simp

theorem en_passant_square_after_move_witness:
  "\<exists>info board'. perform_move default_board 0x64 0x44 = Some (info, board')
     \<and> en_passant_pos board' = 0x44"
proof -
  obtain info board' where a: "perform_move default_board 0x64 0x44 = Some (info, board')"
    by (simp add: ev)
  from en_passant_square_after_move [OF a] a show ?thesis by (simp add: ev)
qed


text \<open>
  C5. The promotion law. Whenever \<open>perform_move(from, to)\<close> returns: if the move is
  pseudo-legal, its mover a pawn and \<open>to\<close> on rank \<open>0x00\<close> or \<open>0x70\<close>, the cell \<open>to\<close> then
  holds a Queen of the mover's colour and the record's promotion field is Queen; and, for
  any move at all, every cell afterwards is empty, or holds what it held, or is \<open>to\<close>
  and holds the mover's code (or the Queen of its colour, for a pawn landing on one of
  the two ranks), or is the castled rook's destination and holds the rook's code. No
  other piece changes its kind bits.
\<close>

theorem promotion_law:
  assumes "perform_move board from to = Some (info, board')"
  shows "(is_legal_move board from to = Some (True, board)
          \<and> indices board from AND MASK_TYPE = PIECE_PAWN
          \<and> (to AND MASK_ROW = 0x00 \<or> to AND MASK_ROW = 0x70)
          \<longrightarrow> indices board' to = PIECE_QUEEN OR (indices board from AND MASK_COLOR)
              \<and> promotion info = PIECE_QUEEN)
       \<and> (\<forall>s. indices board' s = 0
             \<or> indices board' s = indices board s
             \<or> (s = to \<and> indices board' s = indices board from)
             \<or> (s = to \<and> indices board from AND MASK_TYPE = PIECE_PAWN
                 \<and> (to AND MASK_ROW = 0x00 \<or> to AND MASK_ROW = 0x70)
                 \<and> indices board' s = PIECE_QUEEN OR (indices board from AND MASK_COLOR))
             \<or> (s = from + (if from > to then - 1 else 1)
                 \<and> indices board from AND MASK_TYPE = PIECE_KING \<and> \<bar>from - to\<bar> = 2
                 \<and> indices board' s = indices board (from + (if from > to then - 3 else 4))))"
proof (intro conjI impI allI)
  note g = perform_move_Some(1) [OF assms, THEN arg_cong, where f = indices, simplified]
  note i = perform_move_Some(7) [OF assms]
  {
    assume a: "is_legal_move board from to = Some (True, board)
          \<and> indices board from AND MASK_TYPE = PIECE_PAWN
          \<and> (to AND MASK_ROW = 0x00 \<or> to AND MASK_ROW = 0x70)"
    then have pawn: "indices board from AND MASK_TYPE = PIECE_PAWN"
      and prom: "promotes (indices board from) to"
      by (simp_all add: promotes_def)
    from a have shape: "from \<noteq> to"
      "ep_capture (indices board from) from to (indices board to) \<Longrightarrow>
           en_passant_pos board \<noteq> from \<and> en_passant_pos board \<noteq> to
           \<and> (en_passant_pos board = from - 1 \<or> en_passant_pos board = from + 1)"
      using pawn_move_shape [of board "from" to board] by blast+
    have kg: "king_grid (indices board) from to = indices board"
      using pawn by (simp add: king_grid_def castles_def piece_defs)
    have pg: "pawn_grid (indices board) (en_passant_pos board) from to (indices board to) from
                = indices board from"
      using shape(2) by (auto simp: pawn_grid_def)
    show "indices board' to = PIECE_QUEEN OR (indices board from AND MASK_COLOR)"
      using shape(1) prom by (simp add: g moved_grid_def Let_def kg promote_grid_def pg)
    show "promotion info = PIECE_QUEEN"
      using prom by (simp add: i moved_info_def Let_def kg pg)
  }
  fix s
  show "indices board' s = 0
             \<or> indices board' s = indices board s
             \<or> (s = to \<and> indices board' s = indices board from)
             \<or> (s = to \<and> indices board from AND MASK_TYPE = PIECE_PAWN
                 \<and> (to AND MASK_ROW = 0x00 \<or> to AND MASK_ROW = 0x70)
                 \<and> indices board' s = PIECE_QUEEN OR (indices board from AND MASK_COLOR))
             \<or> (s = from + (if from > to then - 1 else 1)
                 \<and> indices board from AND MASK_TYPE = PIECE_KING \<and> \<bar>from - to\<bar> = 2
                 \<and> indices board' s = indices board (from + (if from > to then - 3 else 4)))"
    unfolding g moved_grid_def Let_def promote_grid_def pawn_grid_def king_grid_def castles_def
      promotes_def ep_capture_def rook_from_sq_def rook_to_sq_def piece_defs
    by (auto simp del: abs_eq_iff)
qed

theorem promotion_law_witness:
  "\<exists>info board'. perform_move promotion_board 0x16 0x06 = Some (info, board')
     \<and> is_legal_move promotion_board 0x16 0x06 = Some (True, promotion_board)
     \<and> indices promotion_board 0x16 AND MASK_TYPE = PIECE_PAWN
     \<and> (0x06 :: int) AND MASK_ROW = 0x00
     \<and> indices board' 0x06 = PIECE_QUEEN OR PIECE_WHITE
     \<and> promotion info = PIECE_QUEEN"
proof -
  obtain info board' where a: "perform_move promotion_board 0x16 0x06 = Some (info, board')"
    by (simp add: ev promotion_board_def empty_board_def)
  have b: "is_legal_move promotion_board 0x16 0x06 = Some (True, promotion_board)"
    by (simp add: ev promotion_board_def empty_board_def)
  have c: "indices promotion_board 0x16 AND MASK_TYPE = PIECE_PAWN"
    by (simp add: ev promotion_board_def empty_board_def)
  have d: "(0x06 :: int) AND MASK_ROW = 0x00" by (simp add: ev)
  have e: "indices promotion_board 0x16 AND MASK_COLOR = PIECE_WHITE"
    by (simp add: ev promotion_board_def empty_board_def)
  from promotion_law [OF a] a b c d e show ?thesis by simp
qed

text \<open>
  C1. The make/undo round trip fails on a castling move whose rook lands on an occupied
  square. On \<open>castle_capture_board\<close>, which meets the invariants of section 3.3, the
  oracle accepts the castling move \<open>0x73 \<rightarrow> 0x75\<close>: its rook query \<open>0x77 \<rightarrow> 0x74\<close> counts
  as a capture of the Black knight on \<open>0x74\<close>. \<open>perform_move\<close> overwrites the knight with
  the rook and records nothing of it; \<open>revert_move\<close> returns without a fault and leaves
  \<open>0x74\<close> empty.
\<close>

theorem make_undo_loses_piece_under_castled_rook:
  "spec_invariants castle_capture_board
   \<and> is_legal_move castle_capture_board 0x73 0x75 = Some (True, castle_capture_board)
   \<and> indices castle_capture_board 0x74 = PIECE_KNIGHT OR PIECE_BLACK
   \<and> map_option (\<lambda>board. indices board 0x74)
        (perform_move castle_capture_board 0x73 0x75
           \<bind> (\<lambda>(info, board). revert_move board 0x73 0x75 info)) = Some 0"
proof (intro conjI)
  show "spec_invariants castle_capture_board"
    by (simp add: spec_invariants_def count_piece_def castle_capture_board_def empty_board_def
        piece_defs other_player_def upto_rec1)
  show "is_legal_move castle_capture_board 0x73 0x75 = Some (True, castle_capture_board)"
    by (simp add: ev castle_capture_board_def empty_board_def)
  show "indices castle_capture_board 0x74 = PIECE_KNIGHT OR PIECE_BLACK"
    by (simp add: castle_capture_board_def empty_board_def)
  show "map_option (\<lambda>board. indices board 0x74)
        (perform_move castle_capture_board 0x73 0x75
           \<bind> (\<lambda>(info, board). revert_move board 0x73 0x75 info)) = Some 0"
    by (simp add: ev castle_capture_board_def empty_board_def)
qed

text \<open>
  C2. The oracle and \<open>perform_move\<close> disagree on which castle bit belongs to which
  rook. On \<open>rooks_home_board\<close> with rights \<open>0x2\<close> (bit 0 of White's pair clear, bit 1
  set) the oracle accepts the castling move toward lower indices, \<open>0x73 \<rightarrow> 0x71\<close>, whose
  rook comes from \<open>from - 3 = 0x70\<close>, and rejects the one toward higher indices: it
  reads bit 1 for the rook of file 0 and bit 0 for the rook of file 7. \<open>perform_move\<close>
  clears bit 0 when the rook leaves \<open>0x70\<close>. So after that rook has gone to \<open>0x60\<close> and
  come back, castling with it is still accepted, and castling with the rook that never
  moved is refused.
\<close>

theorem oracle_reads_the_other_castle_bit:
  "castle_bits (rooks_home_board\<lparr>castle_bits := 0x2\<rparr>) AND 1 = 0
   \<and> is_legal_move (rooks_home_board\<lparr>castle_bits := 0x2\<rparr>) 0x73 0x71
       = Some (True, rooks_home_board\<lparr>castle_bits := 0x2\<rparr>)
   \<and> is_legal_move (rooks_home_board\<lparr>castle_bits := 0x2\<rparr>) 0x73 0x75
       = Some (False, rooks_home_board\<lparr>castle_bits := 0x2\<rparr>)
   \<and> map_option (castle_bits \<circ> snd) (perform_move rooks_home_board 0x70 0x60) = Some 0xe
   \<and> map_option castle_bits
        (perform_moves rooks_home_board [(0x70, 0x60), (0x03, 0x04), (0x60, 0x70), (0x04, 0x03)])
       = Some 0x2
   \<and> map_option (\<lambda>board. map_option fst (is_legal_move board 0x73 0x71))
        (perform_moves rooks_home_board [(0x70, 0x60), (0x03, 0x04), (0x60, 0x70), (0x04, 0x03)])
       = Some (Some True)
   \<and> map_option (\<lambda>board. map_option fst (is_legal_move board 0x73 0x75))
        (perform_moves rooks_home_board [(0x70, 0x60), (0x03, 0x04), (0x60, 0x70), (0x04, 0x03)])
       = Some (Some False)"
  by (simp add: ev rooks_home_board_def empty_board_def)


text \<open>
  C3. \<open>check_end_condition_reached\<close> does not always report the mate. \<open>mate_board\<close>
  meets the invariants of section 3.3; White, to move, is in check and has no move in
  \<open>0..127 \<times> 0..127\<close> that is pseudo-legal and leaves its king safe. The tag the code
  sets is \<open>playing\<close>, not Black's win: the counting loop tries the castling move
  \<open>0x73 \<rightarrow> 0x75\<close>, whose make and undo take the Black queen off the board, and then
  counts the capture \<open>0x77 \<rightarrow> 0x37\<close> of the bishop as a legal move of the position
  without the queen. That position is also the one it leaves behind.
\<close>

theorem mate_reported_as_playing:
  "spec_invariants mate_board
   \<and> map_option fst (is_piece_attacked (mate_board\<lparr>current_player := PIECE_BLACK\<rparr>)
        (PIECE_KING OR PIECE_WHITE)) = Some True
   \<and> filter (\<lambda>(from, to). map_option fst (legal_and_safe mate_board from to) \<noteq> Some False)
        (List.product [0..127] [0..127]) = []
   \<and> check_end_condition_reached mate_board
       = Some (mate_board_after\<lparr>game_state := STATE_PLAYING\<rparr>)"
proof (intro conjI)
  show "spec_invariants mate_board" by code_simp
qed (rule mate_checked mate_no_legal_move mate_end_condition)+

end
